theory Spec2Isabelle
  imports Main "HOL-Library.Word"
begin

section \<open>The GPIO wrapper of \<^verbatim>\<open>src/io/rpio.go\<close>\<close>

text \<open>
  The file declares one singleton, \<^verbatim>\<open>RPIOClient\<close>, of type \<^verbatim>\<open>rPIO\<close>. It owns a
  \<^verbatim>\<open>rpioPoller\<close>, whose method \<^verbatim>\<open>poll\<close> runs as a goroutine and is fed through four
  unbuffered channels. The embedding keeps the two structs as records, the methods as
  functions on the program state, and everything the methods do outside the two structs
  (calls into the GPIO library, channel sends, \<^verbatim>\<open>go\<close> statements) as entries of a trace.
  A send on one of the channels completes when the loop receives the value; the loop
  runs the body of the \<^verbatim>\<open>case\<close> afterwards, so the state keeps the value received and
  not yet handled.
\<close>

subsection \<open>Data\<close>

text \<open>
  \<^verbatim>\<open>rpio.Pin\<close> is a \<^verbatim>\<open>uint8\<close> in the GPIO library, \<^verbatim>\<open>rpio.Edge\<close> an enumeration of four
  values, \<^verbatim>\<open>time.Duration\<close> a number of nanoseconds (no arithmetic is done on it here).
  A callback is a Go function value; the program only stores it and calls it, so its type
  is left open as \<open>'cb\<close>.
\<close>

type_synonym pin = "8 word"

datatype Edge = NoEdge | RiseEdge | FallEdge | AnyEdge

type_synonym duration = int

definition DefaultPollFreq :: duration where
  "DefaultPollFreq = 100 * 1000000"

record 'cb pinRegistration =
  pin :: pin
  edge :: Edge
  callback :: 'cb

text \<open>
  The poller: the period its ticker was last set to and the map of pins to poll. Its four
  channels are made without a capacity, so they hold nothing: a send is a hand-over to
  the goroutine that receives, and has no state of its own. The ticker is the standard
  library's \<^verbatim>\<open>time.Ticker\<close>; of it the model keeps the period, and that
  \<^verbatim>\<open>Reset(d)\<close> panics unless \<open>d\<close> is positive.
\<close>

record 'cb rpioPoller =
  ticker :: duration
  registeredPins :: "pin \<rightharpoonup> 'cb pinRegistration"

record 'cb rPIO =
  "open" :: bool
  polling :: bool
  poller :: "'cb rpioPoller"
  registeredPins :: "pin \<rightharpoonup> bool"

text \<open>
  What one pass of the \<^verbatim>\<open>select\<close> in \<^verbatim>\<open>poll\<close> can receive. A tick carries the answers
  that \<^verbatim>\<open>pin.EdgeDetected()\<close> gives during this pass, one for each pin: the GPIO library
  is not part of the repository, so its answers are an input.
\<close>

datatype 'cb select_case =
    FromTicker "pin \<Rightarrow> bool"
  | FromNewPin "'cb pinRegistration"
  | FromRemovePin pin
  | FromNewPollFreq duration
  | FromStop

text \<open>
  The trace: \<^verbatim>\<open>rpio.Open()\<close>, \<^verbatim>\<open>rpio.Close()\<close>, \<^verbatim>\<open>pin.Detect(edge)\<close>,
  \<^verbatim>\<open>go r.poller.poll()\<close>, a completed channel send, and
  \<^verbatim>\<open>go registration.callback(registration.edge)\<close>, the last one together with the key
  \<^verbatim>\<open>pin\<close> of the iteration that started it.
\<close>

datatype 'cb effect =
    RpioOpen
  | RpioClose
  | Detect pin Edge
  | GoPoll
  | Sent "'cb select_case"
  | GoCallback pin 'cb Edge

text \<open>
  The program state: the singleton, the number of goroutines that run \<^verbatim>\<open>poll\<close>, the
  value the loop has received from \<^verbatim>\<open>newPin\<close>, \<^verbatim>\<open>removePin\<close> or \<^verbatim>\<open>newPollFreq\<close> and whose
  \<^verbatim>\<open>case\<close> body it has not run yet (the local \<^verbatim>\<open>newRegistration\<close>,
  \<^verbatim>\<open>registrationToRemove\<close> or \<^verbatim>\<open>newPollFreq\<close> of \<^verbatim>\<open>poll\<close>; \<open>None\<close> while the loop waits at
  its \<^verbatim>\<open>select\<close>), and the trace so far.
\<close>

record 'cb world = "'cb rPIO" +
  loops :: nat
  inbox :: "'cb select_case option"
  trace :: "'cb effect list"

text \<open>
  A method call returns a value, or waits forever on a channel nobody receives from, or
  the process ends in a panic (of the call, or of the poll goroutine while the call
  waits for it); the last two keep the state reached.
\<close>

datatype ('r, 'w) outcome = Returns 'r 'w | Blocks 'w | Panics string 'w

fun andThen :: "('a, 'w) outcome \<Rightarrow> ('a \<Rightarrow> 'w \<Rightarrow> ('b, 'w) outcome) \<Rightarrow> ('b, 'w) outcome" where
  "andThen (Returns r w) f = f r w"
| "andThen (Blocks w) f = Blocks w"
| "andThen (Panics m w) f = Panics m w"

fun world_of :: "('r, 'w) outcome \<Rightarrow> 'w" where
  "world_of (Returns r w) = w"
| "world_of (Blocks w) = w"
| "world_of (Panics m w) = w"

fun returned :: "('r, 'w) outcome \<Rightarrow> 'r option" where
  "returned (Returns r w) = Some r"
| "returned (Blocks w) = None"
| "returned (Panics m w) = None"

text \<open>\<^verbatim>\<open>init\<close>: closed, not polling, both maps empty, no goroutine started.\<close>

definition RPIOClient :: "'cb world" where
  "RPIOClient =
     \<lparr> open = False, polling = False,
       poller = \<lparr> ticker = DefaultPollFreq, registeredPins = Map.empty \<rparr>,
       registeredPins = Map.empty,
       loops = 0, inbox = None, trace = [] \<rparr>"

subsection \<open>The poller\<close>

text \<open>
  \<^verbatim>\<open>for pin, registration := range p.registeredPins\<close>. Go leaves the order of the keys
  open; the model visits them in the order of their numbers. Each pass only starts
  goroutines, so the order shows in nothing but the order of the trace.
\<close>

definition map_range :: "(pin \<rightharpoonup> 'v) \<Rightarrow> (pin \<times> 'v) list" where
  "map_range m = List.map_filter (\<lambda>k. map_option (Pair k) (m k)) Enum.enum"

fun detect_loop :: "(pin \<Rightarrow> bool) \<Rightarrow> (pin \<times> 'cb pinRegistration) list \<Rightarrow> 'cb effect list" where
  "detect_loop edgeDetected [] = []"
| "detect_loop edgeDetected ((k, registration) # rest) =
     (if edgeDetected k
      then GoCallback k (callback registration) (edge registration) # detect_loop edgeDetected rest
      else detect_loop edgeDetected rest)"

text \<open>
  How a pass of the loop body ends: the loop goes on to its next \<^verbatim>\<open>select\<close>, or leaves
  by \<^verbatim>\<open>break pollLoop\<close>, or panics, which ends the process.
\<close>

datatype next_step = Again | Leave | Crash string

text \<open>
  One pass of the loop body of \<^verbatim>\<open>poll\<close>: the new poller, the goroutines started, and
  how the pass ends. \<^verbatim>\<open>p.ticker.Reset(newPollFreq)\<close> panics for a duration that is not
  positive.
\<close>

fun poll_select :: "'cb select_case \<Rightarrow> 'cb rpioPoller \<Rightarrow> 'cb rpioPoller \<times> 'cb effect list \<times> next_step" where
  "poll_select (FromTicker edgeDetected) p =
     (p, detect_loop edgeDetected (map_range (rpioPoller.registeredPins p)), Again)"
| "poll_select (FromNewPin newRegistration) p =
     (p\<lparr>rpioPoller.registeredPins :=
          (rpioPoller.registeredPins p)(pin newRegistration \<mapsto> newRegistration)\<rparr>, [], Again)"
| "poll_select (FromRemovePin registrationToRemove) p =
     (p\<lparr>rpioPoller.registeredPins :=
          (rpioPoller.registeredPins p)(registrationToRemove := None)\<rparr>, [], Again)"
| "poll_select (FromNewPollFreq newPollFreq) p =
     (if newPollFreq \<le> 0 then (p, [], Crash ''non-positive interval for Ticker.Reset'')
      else (p\<lparr>ticker := newPollFreq\<rparr>, [], Again))"
| "poll_select FromStop p = (p, [], Leave)"

text \<open>
  \<^verbatim>\<open>poll\<close> on the sequence of things its \<^verbatim>\<open>select\<close> receives: it ends at the first stop
  signal or panic; when the sequence ends first, the loop is waiting at the \<^verbatim>\<open>select\<close>.
\<close>

fun poll :: "'cb select_case list \<Rightarrow> 'cb rpioPoller \<Rightarrow> 'cb rpioPoller \<times> 'cb effect list \<times> next_step" where
  "poll [] p = (p, [], Again)"
| "poll (c # cs) p =
     (case poll_select c p of
        (p', started, next) \<Rightarrow>
          (case next of
             Again \<Rightarrow> (case poll cs p' of (p'', later, final) \<Rightarrow> (p'', started @ later, final))
           | Leave \<Rightarrow> (p', started, Leave)
           | Crash m \<Rightarrow> (p', started, Crash m)))"

text \<open>
  The loop runs the body of the case for \<open>c\<close>, in the program state. A panic of the
  goroutine ends the process.
\<close>

definition poll_iteration :: "'cb select_case \<Rightarrow> 'cb world \<Rightarrow> (unit, 'cb world) outcome" where
  "poll_iteration c w =
     (case poll_select c (poller w) of
        (p', started, next) \<Rightarrow>
          let w1 = w\<lparr>poller := p', trace := trace w @ started\<rparr> in
          (case next of
             Again \<Rightarrow> Returns () w1
           | Leave \<Rightarrow> Returns () (w1\<lparr>loops := loops w - 1\<rparr>)
           | Crash m \<Rightarrow> Panics m w1))"

text \<open>
  The loop gets to run: it finishes the pass on the value it holds, if any, and is back
  at its \<^verbatim>\<open>select\<close>.
\<close>

definition poll_handle :: "'cb world \<Rightarrow> (unit, 'cb world) outcome" where
  "poll_handle w =
     (if loops w = 0 then Returns () w
      else case inbox w of
             None \<Rightarrow> Returns () w
           | Some c \<Rightarrow> poll_iteration c (w\<lparr>inbox := None\<rparr>))"

text \<open>
  The values whose sender goes on at the receive while the body of the case is still to
  run: a registration, a removal, a new frequency. The stop case has no body but the
  \<^verbatim>\<open>break\<close>, and a tick has no sender that waits, so for these two the receive and the
  pass are one step.
\<close>

fun body_later :: "'cb select_case \<Rightarrow> bool" where
  "body_later (FromNewPin r) = True"
| "body_later (FromRemovePin k) = True"
| "body_later (FromNewPollFreq d) = True"
| "body_later (FromTicker edgeDetected) = False"
| "body_later FromStop = False"

text \<open>
  A send on one of the poller's channels. The channels are unbuffered and only \<^verbatim>\<open>poll\<close>
  receives from them: with no such goroutine the sender waits forever. Otherwise the
  loop first has to come back to its \<^verbatim>\<open>select\<close>; there it receives the value, and the
  send is complete: the sender goes on while the loop holds the value.
\<close>

definition chan_send :: "'cb select_case \<Rightarrow> 'cb world \<Rightarrow> (unit, 'cb world) outcome" where
  "chan_send c w =
     (if loops w = 0 then Blocks w
      else andThen (poll_handle w)
        (\<lambda>_ w1.
           if loops w1 = 0 then Blocks w1
           else
             let w2 = w1\<lparr>trace := trace w1 @ [Sent c]\<rparr> in
             if body_later c then Returns () (w2\<lparr>inbox := Some c\<rparr>)
             else poll_iteration c w2))"

text \<open>
  The ticker fires: a running loop, once back at its \<^verbatim>\<open>select\<close>, takes the tick and
  runs the pass; with no loop the tick is lost.
\<close>

definition ticker_fires :: "(pin \<Rightarrow> bool) \<Rightarrow> 'cb world \<Rightarrow> (unit, 'cb world) outcome" where
  "ticker_fires edgeDetected w =
     (if loops w = 0 then Returns () w
      else andThen (poll_handle w)
        (\<lambda>_ w1.
           if loops w1 = 0 then Returns () w1
           else poll_iteration (FromTicker edgeDetected) w1))"

subsection \<open>The methods of \<^verbatim>\<open>rPIO\<close>\<close>

text \<open>
  \<^verbatim>\<open>Start\<close> and \<^verbatim>\<open>Stop\<close> take what \<^verbatim>\<open>rpio.Open()\<close> and \<^verbatim>\<open>rpio.Close()\<close> answer
  (\<open>None\<close> for \<^verbatim>\<open>nil\<close>, otherwise the text of the error).
\<close>

definition Start :: "string option \<Rightarrow> 'cb world \<Rightarrow> (unit, 'cb world) outcome" where
  "Start err w =
     (if open w then Returns () w
      else
        let w1 = w\<lparr>trace := trace w @ [RpioOpen]\<rparr> in
        case err of
          Some e \<Rightarrow> Panics (''unable to open GPIO: '' @ e) w1
        | None \<Rightarrow> Returns () (w1\<lparr>open := True\<rparr>))"

definition Poll :: "'cb world \<Rightarrow> (unit, 'cb world) outcome" where
  "Poll w =
     (if polling w then Returns () w
      else Returns () (w\<lparr>loops := Suc (loops w), trace := trace w @ [GoPoll], polling := True\<rparr>))"

definition StopPolling :: "'cb world \<Rightarrow> (unit, 'cb world) outcome" where
  "StopPolling w =
     (if \<not> polling w then Returns () w
      else andThen (chan_send FromStop w) (\<lambda>_ w1. Returns () (w1\<lparr>polling := False\<rparr>)))"

definition Stop :: "string option \<Rightarrow> 'cb world \<Rightarrow> (unit, 'cb world) outcome" where
  "Stop err w =
     (if \<not> open w then Returns () w
      else
        andThen (if polling w then StopPolling w else Returns () w)
          (\<lambda>_ w1.
             let w2 = w1\<lparr>trace := trace w1 @ [RpioClose]\<rparr> in
             case err of
               Some e \<Rightarrow> Panics (''unable to close GPIO: '' @ e) w2
             | None \<Rightarrow> Returns () (w2\<lparr>open := False\<rparr>)))"

text \<open>The texts of the errors, under the names the specification gives them.\<close>

definition NotOpen :: string where
  "NotOpen = ''GPIO is not yet open''"

definition NotPolling :: string where
  "NotPolling = ''not yet polling GPIO''"

definition AlreadyRegistered :: string where
  "AlreadyRegistered =
     ''pin is already registered, call RemoveEdgeDetectionRegistration before attempting a new registration''"

definition NotRegistered :: string where
  "NotRegistered = ''pin is not yet registered''"

definition PollingNotStarted :: string where
  "PollingNotStarted = ''polling has not yet started''"

definition RegisterEdgeDetection ::
  "pin \<Rightarrow> Edge \<Rightarrow> 'cb \<Rightarrow> 'cb world \<Rightarrow> (string option, 'cb world) outcome" where
  "RegisterEdgeDetection pin0 edge0 callback0 w =
     (if \<not> open w then Returns (Some NotOpen) w
      else if \<not> polling w then Returns (Some NotPolling) w
      else if rPIO.registeredPins w pin0 \<noteq> None then Returns (Some AlreadyRegistered) w
      else
        let w1 = w\<lparr>rPIO.registeredPins := (rPIO.registeredPins w)(pin0 \<mapsto> True)\<rparr>;
            w2 = w1\<lparr>trace := trace w1 @ [Detect pin0 edge0]\<rparr>
        in andThen
             (chan_send (FromNewPin \<lparr>pin = pin0, edge = edge0, callback = callback0\<rparr>) w2)
             (\<lambda>_ w3. Returns None w3))"

definition RemoveEdgeDetectionRegistration ::
  "pin \<Rightarrow> 'cb world \<Rightarrow> (string option, 'cb world) outcome" where
  "RemoveEdgeDetectionRegistration pin0 w =
     (if \<not> open w then Returns (Some NotOpen) w
      else if \<not> polling w then Returns (Some NotPolling) w
      else if rPIO.registeredPins w pin0 = None then Returns (Some NotRegistered) w
      else
        let w1 = w\<lparr>rPIO.registeredPins := (rPIO.registeredPins w)(pin0 := None)\<rparr>;
            w2 = w1\<lparr>trace := trace w1 @ [Detect pin0 NoEdge]\<rparr>
        in andThen (chan_send (FromRemovePin pin0) w2) (\<lambda>_ w3. Returns None w3))"

definition UpdatePollFreq :: "duration \<Rightarrow> 'cb world \<Rightarrow> (string option, 'cb world) outcome" where
  "UpdatePollFreq d w =
     (if \<not> open w then Returns (Some PollingNotStarted) w
      else andThen (chan_send (FromNewPollFreq d) w) (\<lambda>_ w1. Returns None w1))"

subsection \<open>Runs of the program\<close>

text \<open>
  A caller makes one call after the other (the methods take no lock, so the calls of
  several goroutines have to be serialised outside); between two calls the ticker may
  fire, and the loop may get to run the body for the value it holds. A run ends early
  where a call blocks or the process panics.
\<close>

datatype 'cb action =
    CallStart "string option"
  | CallPoll
  | CallStopPolling
  | CallStop "string option"
  | CallRegisterEdgeDetection pin Edge 'cb
  | CallRemoveEdgeDetectionRegistration pin
  | CallUpdatePollFreq duration
  | TickerFires "pin \<Rightarrow> bool"
  | LoopRuns

fun exec :: "'cb action \<Rightarrow> 'cb world \<Rightarrow> (unit, 'cb world) outcome" where
  "exec (CallStart err) w = Start err w"
| "exec CallPoll w = Poll w"
| "exec CallStopPolling w = StopPolling w"
| "exec (CallStop err) w = Stop err w"
| "exec (CallRegisterEdgeDetection pin0 edge0 callback0) w =
     andThen (RegisterEdgeDetection pin0 edge0 callback0 w) (\<lambda>_ w1. Returns () w1)"
| "exec (CallRemoveEdgeDetectionRegistration pin0) w =
     andThen (RemoveEdgeDetectionRegistration pin0 w) (\<lambda>_ w1. Returns () w1)"
| "exec (CallUpdatePollFreq d) w =
     andThen (UpdatePollFreq d w) (\<lambda>_ w1. Returns () w1)"
| "exec (TickerFires edgeDetected) w = ticker_fires edgeDetected w"
| "exec LoopRuns w = poll_handle w"

fun run :: "'cb action list \<Rightarrow> 'cb world \<Rightarrow> (unit, 'cb world) outcome" where
  "run [] w = Returns () w"
| "run (a # as) w = andThen (exec a w) (\<lambda>_. run as)"

subsection \<open>Notions used in the statements\<close>

text \<open>A trace entry is a callback goroutine started for the key \<open>L\<close>.\<close>

fun callback_for :: "pin \<Rightarrow> 'cb effect \<Rightarrow> bool" where
  "callback_for L (GoCallback k cb e) = (k = L)"
| "callback_for L _ = False"

text \<open>A received value is a registration for \<open>L\<close>; a trace entry is the send of one.\<close>

fun registers :: "pin \<Rightarrow> 'cb select_case \<Rightarrow> bool" where
  "registers L (FromNewPin r) = (pin r = L)"
| "registers L _ = False"



text \<open>
  The pass the loop still has to finish on the value it holds: the poller it leaves,
  what it starts and how it ends; nothing where the loop holds no value. The loop is
  ready to receive when a \<^verbatim>\<open>poll\<close> goroutine runs and this pass brings it back to its
  \<^verbatim>\<open>select\<close>. The registry with the pending message counted in is the poller's map as
  this pass leaves it.
\<close>

definition pending_pass :: "'cb world \<Rightarrow> 'cb rpioPoller \<times> 'cb effect list \<times> next_step" where
  "pending_pass w =
     (case inbox w of None \<Rightarrow> (poller w, [], Again) | Some c \<Rightarrow> poll_select c (poller w))"

definition loop_ready :: "'cb world \<Rightarrow> bool" where
  "loop_ready w = (0 < loops w \<and> snd (snd (pending_pass w)) = Again)"

definition registry :: "'cb world \<Rightarrow> (pin \<rightharpoonup> 'cb pinRegistration)" where
  "registry w = rpioPoller.registeredPins (fst (pending_pass w))"

text \<open>The loop holds a new frequency on which \<^verbatim>\<open>Reset\<close> will panic.\<close>

definition doomed :: "'cb world \<Rightarrow> bool" where
  "doomed w = (case inbox w of Some (FromNewPollFreq d) \<Rightarrow> d \<le> 0 | _ \<Rightarrow> False)"

text \<open>
  The controller's map and the poller's map have the same keys; every registration is
  stored under its own pin; exactly one \<^verbatim>\<open>poll\<close> goroutine runs while \<open>polling\<close> is set,
  and none otherwise; what the loop holds is a value whose body runs later. A state is
  consistent when these hold with the pending message counted in.
\<close>

definition shadows_registry :: "'cb world \<Rightarrow> bool" where
  "shadows_registry w =
     (dom (rPIO.registeredPins w) = dom (rpioPoller.registeredPins (poller w)))"

definition keyed_by_pin :: "(pin \<rightharpoonup> 'cb pinRegistration) \<Rightarrow> bool" where
  "keyed_by_pin m = (\<forall>k r. m k = Some r \<longrightarrow> pin r = k)"

definition one_loop :: "'cb world \<Rightarrow> bool" where
  "one_loop w = (loops w = (if polling w then 1 else 0))"

definition steady :: "'cb world \<Rightarrow> bool" where
  "steady w =
     (one_loop w \<and> (case inbox w of None \<Rightarrow> True | Some c \<Rightarrow> body_later c \<and> polling w))"

definition consistent :: "'cb world \<Rightarrow> bool" where
  "consistent w =
     (dom (rPIO.registeredPins w) = dom (registry w)
      \<and> keyed_by_pin (registry w)
      \<and> keyed_by_pin (rpioPoller.registeredPins (poller w))
      \<and> steady w)"

text \<open>An outcome in which the process has not ended in a panic.\<close>

fun alive :: "('r, 'w) outcome \<Rightarrow> bool" where
  "alive (Panics m w) = False"
| "alive out = True"

text \<open>
  Two states used as concrete inputs: the state after \<^verbatim>\<open>Start\<close> alone, and the state
  after \<^verbatim>\<open>Start\<close>, \<^verbatim>\<open>Poll\<close>, the registration of pin 4 for falling edges with callback
  number 7, and the loop's pass on that registration.
\<close>

definition opened_world :: "nat world" where
  "opened_world =
     \<lparr> open = True, polling = False,
       poller = \<lparr> ticker = DefaultPollFreq, registeredPins = Map.empty \<rparr>,
       registeredPins = Map.empty,
       loops = 0, inbox = None, trace = [RpioOpen] \<rparr>"

definition example_world :: "nat world" where
  "example_world =
     \<lparr> open = True, polling = True,
       poller = \<lparr> ticker = DefaultPollFreq,
                  registeredPins = [4 \<mapsto> \<lparr>pin = 4, edge = FallEdge, callback = 7\<rparr>] \<rparr>,
       registeredPins = [4 \<mapsto> True],
       loops = 1, inbox = None,
       trace = [RpioOpen, GoPoll, Detect 4 FallEdge,
                Sent (FromNewPin \<lparr>pin = 4, edge = FallEdge, callback = 7\<rparr>)] \<rparr>"

section \<open>Properties\<close>

subsection \<open>Auxiliary facts\<close>

lemmas method_defs =
  Start_def Poll_def StopPolling_def Stop_def RegisterEdgeDetection_def
  RemoveEdgeDetectionRegistration_def UpdatePollFreq_def chan_send_def
  poll_handle_def poll_iteration_def ticker_fires_def

lemma example_world_run:
  "run [CallStart None, CallPoll, CallRegisterEdgeDetection 4 FallEdge 7, LoopRuns] RPIOClient
     = Returns () example_world"
  by (simp add: method_defs RPIOClient_def example_world_def)

lemma opened_world_run: "run [CallStart None] RPIOClient = Returns () opened_world"
  by (simp add: method_defs RPIOClient_def opened_world_def)

lemma world_of_andThen:
  "world_of (andThen out f) =
     (case out of Returns r w \<Rightarrow> world_of (f r w) | Blocks w \<Rightarrow> w | Panics m w \<Rightarrow> w)"
  by (cases out) simp_all

lemma andThen_Returns:
  "andThen out f = Returns r w \<longleftrightarrow> (\<exists>r1 w1. out = Returns r1 w1 \<and> f r1 w1 = Returns r w)"
  by (cases out) simp_all


text \<open>The keys of a map, each once, and the map read back from the list.\<close>

lemma map_fst_map_filter:
  "map fst (List.map_filter (\<lambda>k. map_option (Pair k) (m k)) ks) = filter (\<lambda>k. m k \<noteq> None) ks"
  by (induction ks) (auto simp: List.map_filter_simps split: option.splits)

lemma map_of_map_filter:
  "map_of (List.map_filter (\<lambda>k. map_option (Pair k) (m k)) ks) L
     = (if L \<in> set ks then m L else None)"
  by (induction ks) (auto simp: List.map_filter_simps split: option.splits)

lemma distinct_map_range: "distinct (map fst (map_range m))"
  by (simp add: map_range_def map_fst_map_filter enum_distinct)

lemma map_of_map_range: "map_of (map_range m) = m"
  by (rule ext) (simp add: map_range_def map_of_map_filter enum_UNIV)

lemma detect_loop_none:
  "L \<notin> fst ` set kvs \<Longrightarrow> filter (callback_for L) (detect_loop det kvs) = []"
  by (induction kvs) auto

lemma detect_loop_for:
  "distinct (map fst kvs) \<Longrightarrow>
   filter (callback_for L) (detect_loop det kvs) =
     (case map_of kvs L of
        Some r \<Rightarrow> if det L then [GoCallback L (callback r) (edge r)] else []
      | None \<Rightarrow> [])"
proof (induction kvs)
  case Nil
  then show ?case by simp
next
  case (Cons kv kvs)
  obtain k r where kv: "kv = (k, r)" by (cases kv)
  show ?case
  proof (cases "k = L")
    case True
    with Cons.prems kv have "L \<notin> fst ` set kvs" by auto
    then have "filter (callback_for L) (detect_loop det kvs) = []"
      by (rule detect_loop_none)
    with True kv show ?thesis by simp
  next
    case False
    with Cons kv show ?thesis by simp
  qed
qed

text \<open>What a tick starts for one key, whatever the other keys are.\<close>

lemma tick_for:
  "filter (callback_for L) (detect_loop det (map_range m)) =
     (case m L of
        Some r \<Rightarrow> if det L then [GoCallback L (callback r) (edge r)] else []
      | None \<Rightarrow> [])"
  using detect_loop_for [OF distinct_map_range, of L det m] by (simp add: map_of_map_range)

text \<open>The pass on a value whose body runs later starts nothing and does not leave.\<close>

lemma body_later_pass:
  "body_later c \<Longrightarrow>
   fst (snd (poll_select c p)) = [] \<and> snd (snd (poll_select c p)) \<noteq> Leave"
  by (cases c) simp_all

lemma body_later_map:
  "body_later c \<Longrightarrow>
   rpioPoller.registeredPins (fst (poll_select c p)) =
     (case c of
        FromNewPin r \<Rightarrow> (rpioPoller.registeredPins p)(pin r \<mapsto> r)
      | FromRemovePin k \<Rightarrow> (rpioPoller.registeredPins p)(k := None)
      | _ \<Rightarrow> rpioPoller.registeredPins p)"
  by (cases c) simp_all

text \<open>What the loop does when it gets to run, in terms of the pass it has to finish.\<close>

lemma poll_handle_ready:
  "loop_ready w \<Longrightarrow>
   poll_handle w =
     Returns ()
       (w\<lparr>poller := fst (pending_pass w), inbox := None,
          trace := trace w @ fst (snd (pending_pass w))\<rparr>)"
  by (cases "inbox w")
    (auto simp: loop_ready_def pending_pass_def poll_handle_def poll_iteration_def Let_def
      split: prod.splits next_step.splits)

lemma poll_handle_registry:
  "rpioPoller.registeredPins (poller (world_of (poll_handle w))) =
     (if loops w = 0 then rpioPoller.registeredPins (poller w) else registry w)"
  by (cases "inbox w")
    (auto simp: registry_def pending_pass_def poll_handle_def poll_iteration_def Let_def
      split: prod.splits next_step.splits)

text \<open>What a send, a tick and a pass of the loop leave alone.\<close>

lemma poll_handle_frame:
  "rPIO.registeredPins (world_of (poll_handle w)) = rPIO.registeredPins w
   \<and> open (world_of (poll_handle w)) = open w
   \<and> polling (world_of (poll_handle w)) = polling w"
  by (cases "inbox w")
    (simp_all add: poll_handle_def poll_iteration_def Let_def
      split: prod.splits next_step.splits)

lemma poll_iteration_frame:
  "rPIO.registeredPins (world_of (poll_iteration c w)) = rPIO.registeredPins w
   \<and> open (world_of (poll_iteration c w)) = open w
   \<and> polling (world_of (poll_iteration c w)) = polling w"
  by (simp add: poll_iteration_def Let_def split: prod.splits next_step.splits)

lemma chan_send_frame:
  "rPIO.registeredPins (world_of (chan_send c w)) = rPIO.registeredPins w
   \<and> open (world_of (chan_send c w)) = open w
   \<and> polling (world_of (chan_send c w)) = polling w"
proof (cases "poll_handle w")
  case (Returns u w1)
  with poll_handle_frame [of w] poll_iteration_frame [of c "w1\<lparr>trace := trace w1 @ [Sent c]\<rparr>"]
  show ?thesis by (simp add: chan_send_def Let_def)
next
  case (Blocks w1)
  with poll_handle_frame [of w] show ?thesis by (simp add: chan_send_def)
next
  case (Panics m w1)
  with poll_handle_frame [of w] show ?thesis by (simp add: chan_send_def)
qed


lemma world_of_then_return:
  "world_of (andThen out (\<lambda>r w. Returns (g r) w)) = world_of out"
  by (cases out) simp_all

lemma StopPolling_frame:
  "rPIO.registeredPins (world_of (StopPolling w)) = rPIO.registeredPins w
   \<and> open (world_of (StopPolling w)) = open w"
  using chan_send_frame [of FromStop w]
  by (cases "chan_send FromStop w") (simp_all add: StopPolling_def)

lemma Stop_shadow:
  "rPIO.registeredPins (world_of (Stop err w)) = rPIO.registeredPins w"
  using StopPolling_frame [of w]
  by (cases "StopPolling w") (simp_all add: Stop_def Let_def split: option.splits)















text \<open>The state when the loop has got to run, field by field.\<close>

lemma poll_handle_fields:
  "poller (world_of (poll_handle w)) = (if loops w = 0 then poller w else fst (pending_pass w))"
  "inbox (world_of (poll_handle w)) = (if loops w = 0 then inbox w else None)"
  "trace (world_of (poll_handle w))
     = (if loops w = 0 then trace w else trace w @ fst (snd (pending_pass w)))"
  "loops (world_of (poll_handle w))
     = (if snd (snd (pending_pass w)) = Leave then loops w - 1 else loops w)"
  "returned (poll_handle w)
     = (if loops w = 0 then Some ()
        else case snd (snd (pending_pass w)) of Crash m \<Rightarrow> None | _ \<Rightarrow> Some ())"
  by (cases "inbox w";
      simp add: pending_pass_def poll_handle_def poll_iteration_def Let_def
        split: prod.splits next_step.splits)+

lemma poll_handle_not_Blocks: "poll_handle w \<noteq> Blocks x"
  by (cases "inbox w")
    (simp_all add: poll_handle_def poll_iteration_def Let_def
      split: prod.splits next_step.splits)

lemma steady_pending:
  "steady w \<Longrightarrow>
   fst (snd (pending_pass w)) = [] \<and> snd (snd (pending_pass w)) \<noteq> Leave"
  using body_later_pass [of "the (inbox w)" "poller w"]
  by (cases "inbox w") (simp_all add: steady_def pending_pass_def)

lemma steady_init: "steady RPIOClient"
  by (simp add: steady_def one_loop_def RPIOClient_def)

lemma steady_poll_handle: "steady w \<Longrightarrow> steady (world_of (poll_handle w))"
  using steady_pending [of w]
  by (simp add: steady_def one_loop_def poll_handle_fields poll_handle_frame
      split: option.splits)

lemma poll_iteration_fields:
  "loops (world_of (poll_iteration c w))
     = (if snd (snd (poll_select c (poller w))) = Leave then loops w - 1 else loops w)"
  "inbox (world_of (poll_iteration c w)) = inbox w"
  "poller (world_of (poll_iteration c w)) = fst (poll_select c (poller w))"
  "trace (world_of (poll_iteration c w)) = trace w @ fst (snd (poll_select c (poller w)))"
  by (simp_all add: poll_iteration_def Let_def split: prod.splits next_step.splits)

text \<open>A send in a steady state with a loop: the fields of the state it leaves.\<close>

lemma chan_send_fields:
  assumes "steady w" and "0 < loops w"
  shows "loops (world_of (chan_send c w))
           = (if alive (poll_handle w) \<and> c = FromStop then loops w - 1 else loops w)"
    and "inbox (world_of (chan_send c w))
           = (if alive (poll_handle w) \<and> body_later c then Some c else None)"
    and "poller (world_of (chan_send c w)) = fst (pending_pass w)"
    and "returned (chan_send c w) = (if alive (poll_handle w) then Some () else None)"
    and "alive (chan_send c w) = alive (poll_handle w)"
proof -
  from assms(1) have pend: "fst (snd (pending_pass w)) = []"
    "snd (snd (pending_pass w)) \<noteq> Leave"
    using steady_pending by blast+
  note facts = assms(2) pend poll_handle_fields [of w] poll_handle_not_Blocks [of w]
  show "loops (world_of (chan_send c w))
           = (if alive (poll_handle w) \<and> c = FromStop then loops w - 1 else loops w)"
    using facts
    by (cases "poll_handle w"; cases c)
      (auto simp: chan_send_def Let_def poll_iteration_fields)
  show "inbox (world_of (chan_send c w))
           = (if alive (poll_handle w) \<and> body_later c then Some c else None)"
    using facts
    by (cases "poll_handle w"; cases c)
      (auto simp: chan_send_def Let_def poll_iteration_fields)
  show "poller (world_of (chan_send c w)) = fst (pending_pass w)"
    using facts
    by (cases "poll_handle w"; cases c)
      (auto simp: chan_send_def Let_def poll_iteration_fields)
  show "returned (chan_send c w) = (if alive (poll_handle w) then Some () else None)"
    using facts
    by (cases "poll_handle w"; cases c)
      (auto simp: chan_send_def Let_def poll_iteration_def split: prod.splits)
  show "alive (chan_send c w) = alive (poll_handle w)"
    using facts
    by (cases "poll_handle w"; cases c)
      (auto simp: chan_send_def Let_def poll_iteration_def split: prod.splits)
qed

lemma steady_chan_send:
  assumes "steady w" and "polling w"
  shows "steady (world_of (chan_send c w)\<lparr>polling := (c \<noteq> FromStop \<or> \<not> alive (chan_send c w))\<rparr>)"
proof -
  from assms have pos: "0 < loops w" and one: "loops w = 1"
    by (simp_all add: steady_def one_loop_def)
  from chan_send_fields [OF assms(1) pos, of c] chan_send_frame [of c w] one assms(2)
  show ?thesis
    by (cases c) (simp_all add: steady_def one_loop_def split: option.splits)
qed

lemma steady_StopPolling: "steady w \<Longrightarrow> steady (world_of (StopPolling w))"
proof (cases "polling w")
  case False
  assume "steady w"
  with False show ?thesis by (simp add: StopPolling_def)
next
  case True
  assume st: "steady w"
  from st True have pos: "0 < loops w" by (simp add: steady_def one_loop_def)
  note f = chan_send_fields [OF st pos, of FromStop] chan_send_frame [of FromStop w]
  from f True st show ?thesis
    by (cases "chan_send FromStop w")
      (auto simp: StopPolling_def steady_def one_loop_def split: option.splits if_splits)
qed

lemma steady_flags:
  "steady (w\<lparr>open := b\<rparr>) = steady w"
  "steady (w\<lparr>trace := t\<rparr>) = steady w"
  "steady (w\<lparr>rPIO.registeredPins := m\<rparr>) = steady w"
  by (simp_all add: steady_def one_loop_def split: option.splits)

lemma steady_sending:
  assumes "steady w" and "polling w" and "c \<noteq> FromStop"
  shows "steady (world_of (chan_send c w))"
  using steady_chan_send [OF assms(1,2), of c] assms(3) chan_send_frame [of c w] assms(2)
  by (simp add: steady_def one_loop_def split: option.splits)

lemma exec_steady: "steady w \<Longrightarrow> steady (world_of (exec a w))"
proof (cases a)
  case (CallStart err)
  assume "steady w"
  with CallStart show ?thesis
    by (simp add: Start_def Let_def steady_flags split: option.splits)
next
  case CallPoll
  assume "steady w"
  with CallPoll show ?thesis
    by (auto simp: Poll_def steady_def one_loop_def split: option.splits)
next
  case CallStopPolling
  assume "steady w"
  with CallStopPolling show ?thesis by (simp add: steady_StopPolling)
next
  case (CallStop err)
  assume "steady w"
  then have "steady (world_of (StopPolling w))" by (rule steady_StopPolling)
  with CallStop \<open>steady w\<close> show ?thesis
    by (cases "StopPolling w")
      (simp_all add: Stop_def Let_def steady_flags split: option.splits)
next
  case (CallRegisterEdgeDetection k e cb)
  assume st: "steady w"
  show ?thesis
  proof (cases "open w \<and> polling w \<and> rPIO.registeredPins w k = None")
    case False
    with st CallRegisterEdgeDetection show ?thesis
      by (auto simp: RegisterEdgeDetection_def)
  next
    case True
    let ?w2 = "w\<lparr>rPIO.registeredPins := (rPIO.registeredPins w)(k \<mapsto> True),
                  trace := trace w @ [Detect k e]\<rparr>"
    from st have "steady ?w2" by (simp add: steady_flags)
    moreover from True have "polling ?w2" by simp
    ultimately have "steady (world_of (chan_send
        (FromNewPin \<lparr>pin = k, edge = e, callback = cb\<rparr>) ?w2))"
      by (rule steady_sending) simp
    with True CallRegisterEdgeDetection show ?thesis
      by (simp add: RegisterEdgeDetection_def Let_def world_of_then_return)
  qed
next
  case (CallRemoveEdgeDetectionRegistration k)
  assume st: "steady w"
  show ?thesis
  proof (cases "open w \<and> polling w \<and> rPIO.registeredPins w k \<noteq> None")
    case False
    with st CallRemoveEdgeDetectionRegistration show ?thesis
      by (auto simp: RemoveEdgeDetectionRegistration_def)
  next
    case True
    let ?w2 = "w\<lparr>rPIO.registeredPins := (rPIO.registeredPins w)(k := None),
                  trace := trace w @ [Detect k NoEdge]\<rparr>"
    from st have "steady ?w2" by (simp add: steady_flags)
    moreover from True have "polling ?w2" by simp
    ultimately have "steady (world_of (chan_send (FromRemovePin k) ?w2))"
      by (rule steady_sending) simp
    with True CallRemoveEdgeDetectionRegistration show ?thesis
      by (auto simp: RemoveEdgeDetectionRegistration_def Let_def world_of_then_return)
  qed
next
  case (CallUpdatePollFreq d)
  assume st: "steady w"
  show ?thesis
  proof (cases "polling w")
    case True
    with st have "steady (world_of (chan_send (FromNewPollFreq d) w))"
      by (rule steady_sending) simp
    with st CallUpdatePollFreq show ?thesis
      by (simp add: UpdatePollFreq_def world_of_then_return)
  next
    case False
    with st have "loops w = 0" by (simp add: steady_def one_loop_def)
    with st CallUpdatePollFreq show ?thesis
      by (simp add: UpdatePollFreq_def chan_send_def world_of_then_return)
  qed
next
  case (TickerFires det)
  assume st: "steady w"
  show ?thesis
  proof (cases "loops w = 0")
    case True
    with st TickerFires show ?thesis by (simp add: ticker_fires_def)
  next
    case False
    from st have h: "steady (world_of (poll_handle w))" by (rule steady_poll_handle)
    from steady_pending [OF st] have l: "loops (world_of (poll_handle w)) = loops w"
      by (simp add: poll_handle_fields)
    show ?thesis
    proof (cases "poll_handle w")
      case (Returns u wh)
      with h l False have "steady wh" "loops wh \<noteq> 0" by simp_all
      then have "steady (world_of (poll_iteration (FromTicker det) wh))"
        by (simp add: steady_def one_loop_def poll_iteration_fields poll_iteration_frame
            split: option.splits)
      with Returns False \<open>loops wh \<noteq> 0\<close> TickerFires show ?thesis
        by (simp add: ticker_fires_def)
    next
      case (Blocks wh)
      with h False TickerFires show ?thesis by (simp add: ticker_fires_def)
    next
      case (Panics m wh)
      with h False TickerFires show ?thesis by (simp add: ticker_fires_def)
    qed
  qed
next
  case LoopRuns
  assume "steady w"
  with LoopRuns show ?thesis by (simp add: steady_poll_handle)
qed

lemma run_steady: "steady w \<Longrightarrow> steady (world_of (run acts w))"
proof (induction acts arbitrary: w)
  case Nil
  then show ?case by simp
next
  case (Cons a acts)
  from Cons.prems have step: "steady (world_of (exec a w))" by (rule exec_steady)
  show ?case
  proof (cases "exec a w")
    case (Returns u w1)
    with step have "steady w1" by simp
    then have "steady (world_of (run acts w1))" by (rule Cons.IH)
    with Returns show ?thesis by simp
  next
    case (Blocks w1)
    with step show ?thesis by simp
  next
    case (Panics m w1)
    with step show ?thesis by simp
  qed
qed

lemma run_loop_running:
  "(0 < loops (world_of (run acts RPIOClient))) = polling (world_of (run acts RPIOClient))"
  using run_steady [OF steady_init, of acts] by (simp add: steady_def one_loop_def)

text \<open>
  Every run from \<^verbatim>\<open>init\<close> keeps the state consistent as long as the process lives, also
  where the run ends in a call that blocks.
\<close>

lemma consistent_init: "consistent RPIOClient"
  using steady_init [where 'a = 'a]
  by (simp add: consistent_def registry_def pending_pass_def keyed_by_pin_def RPIOClient_def)

lemma consistent_same:
  "consistent w \<Longrightarrow> steady w' \<Longrightarrow> rPIO.registeredPins w' = rPIO.registeredPins w \<Longrightarrow>
   poller w' = poller w \<Longrightarrow> inbox w' = inbox w \<Longrightarrow> consistent w'"
  by (cases "inbox w") (simp_all add: consistent_def registry_def pending_pass_def)

lemma consistent_settled:
  "consistent w \<Longrightarrow> steady w' \<Longrightarrow> rPIO.registeredPins w' = rPIO.registeredPins w \<Longrightarrow>
   inbox w' = None \<Longrightarrow> rpioPoller.registeredPins (poller w') = registry w \<Longrightarrow>
   consistent w'"
  by (simp add: consistent_def registry_def pending_pass_def)

lemma consistent_holding:
  "consistent w \<Longrightarrow> steady w' \<Longrightarrow> inbox w' = Some c \<Longrightarrow>
   rpioPoller.registeredPins (poller w') = registry w \<Longrightarrow>
   dom (rPIO.registeredPins w')
     = dom (rpioPoller.registeredPins (fst (poll_select c (poller w')))) \<Longrightarrow>
   keyed_by_pin (rpioPoller.registeredPins (fst (poll_select c (poller w')))) \<Longrightarrow>
   consistent w'"
  by (simp add: consistent_def registry_def pending_pass_def)

lemma consistent_maps:
  "consistent w \<Longrightarrow>
   dom (rPIO.registeredPins w) = dom (registry w) \<and> keyed_by_pin (registry w)"
  by (simp add: consistent_def)

lemma consistent_poll_handle:
  assumes "consistent w"
  shows "consistent (world_of (poll_handle w))"
proof (cases "loops w = 0")
  case True
  then have "poll_handle w = Returns () w" by (simp add: poll_handle_def)
  with assms show ?thesis by simp
next
  case False
  from assms have st: "steady w" by (simp add: consistent_def)
  from assms steady_poll_handle [OF st] show ?thesis
    by (rule consistent_settled)
      (use False in \<open>simp_all add: poll_handle_frame poll_handle_fields registry_def\<close>)
qed

lemma consistent_chan_send:
  assumes c: "consistent w" and p: "polling w" and a: "alive (chan_send m w)"
    and m: "m = FromStop \<or> (\<exists>det. m = FromTicker det) \<or> (\<exists>d. m = FromNewPollFreq d)"
  shows "consistent (world_of (chan_send m w)\<lparr>polling := (m \<noteq> FromStop)\<rparr>)"
proof -
  from c have st: "steady w" by (simp add: consistent_def)
  from st p have pos: "0 < loops w" by (simp add: steady_def one_loop_def)
  note f = chan_send_fields [OF st pos, of m] chan_send_frame [of m w]
  from a f have al: "alive (poll_handle w)" by simp
  have st': "steady (world_of (chan_send m w)\<lparr>polling := (m \<noteq> FromStop)\<rparr>)"
    using steady_chan_send [OF st p, of m] a by simp
  from m show ?thesis
  proof (elim disjE exE)
    assume "m = FromStop"
    with c st' f al show ?thesis
      by (intro consistent_settled [OF c st']) (simp_all add: registry_def)
  next
    fix det assume "m = FromTicker det"
    with c st' f al show ?thesis
      by (intro consistent_settled [OF c st']) (simp_all add: registry_def)
  next
    fix d assume d: "m = FromNewPollFreq d"
    with f al have i: "inbox (world_of (chan_send m w)) = Some (FromNewPollFreq d)"
      and q: "poller (world_of (chan_send m w)) = fst (pending_pass w)"
      and s: "rPIO.registeredPins (world_of (chan_send m w)) = rPIO.registeredPins w"
      by simp_all
    from q have raw: "rpioPoller.registeredPins (poller (world_of (chan_send m w))) = registry w"
      by (simp add: registry_def)
    from consistent_maps [OF c] show ?thesis
      by (intro consistent_holding [OF c st', of "FromNewPollFreq d"])
        (simp_all add: i raw s)
  qed
qed

lemma alive_andThen:
  "alive (andThen out f) =
     (case out of Returns r w \<Rightarrow> alive (f r w) | Blocks w \<Rightarrow> True | Panics m w \<Rightarrow> False)"
  by (cases out) simp_all

lemma alive_then_return: "alive (andThen out (\<lambda>r w. Returns (g r) (h w))) = alive out"
  by (cases out) simp_all

lemma keyed_by_pin_upd:
  "keyed_by_pin m \<Longrightarrow> keyed_by_pin (m(k \<mapsto> \<lparr>pin = k, edge = e, callback = cb\<rparr>))"
  "keyed_by_pin m \<Longrightarrow> keyed_by_pin (m(k := None))"
  by (simp_all add: keyed_by_pin_def)

lemma pending_pass_upd:
  "pending_pass (w\<lparr>rPIO.registeredPins := m\<rparr>) = pending_pass w"
  "pending_pass (w\<lparr>trace := t\<rparr>) = pending_pass w"
  "pending_pass (w\<lparr>open := b\<rparr>) = pending_pass w"
  "pending_pass (w\<lparr>polling := b\<rparr>) = pending_pass w"
  "pending_pass (w\<lparr>loops := n\<rparr>) = pending_pass w"
  by (simp_all add: pending_pass_def split: option.splits)

lemma consistent_RegisterEdgeDetection:
  assumes c: "consistent w" and a: "alive (RegisterEdgeDetection L e cb w)"
  shows "consistent (world_of (RegisterEdgeDetection L e cb w))"
proof (cases "open w \<and> polling w \<and> rPIO.registeredPins w L = None")
  case False
  with c show ?thesis by (auto simp: RegisterEdgeDetection_def)
next
  case True
  let ?m = "FromNewPin \<lparr>pin = L, edge = e, callback = cb\<rparr>"
  let ?w2 = "w\<lparr>rPIO.registeredPins := (rPIO.registeredPins w)(L \<mapsto> True),
                trace := trace w @ [Detect L e]\<rparr>"
  let ?w3 = "world_of (chan_send ?m ?w2)"
  from True have call: "RegisterEdgeDetection L e cb w
      = andThen (chan_send ?m ?w2) (\<lambda>_ w3. Returns None w3)"
    by (simp add: RegisterEdgeDetection_def)
  from a have al: "alive (chan_send ?m ?w2)"
    unfolding call by (simp add: alive_then_return)
  from c have st: "steady w" by (simp add: consistent_def)
  then have st2: "steady ?w2" by (simp add: steady_flags)
  from True have p2: "polling ?w2" by simp
  from st2 p2 have pos: "0 < loops ?w2" by (simp add: steady_def one_loop_def)
  have pend: "pending_pass ?w2 = pending_pass w" by (simp add: pending_pass_upd)
  note f = chan_send_fields [OF st2 pos, of ?m] chan_send_frame [of ?m ?w2]
  from f al have i: "inbox ?w3 = Some ?m" and q: "poller ?w3 = fst (pending_pass w)"
    and s: "rPIO.registeredPins ?w3 = (rPIO.registeredPins w)(L \<mapsto> True)"
    by (simp_all add: pend)
  from q have raw: "rpioPoller.registeredPins (poller ?w3) = registry w"
    by (simp add: registry_def)
  have st3: "steady ?w3" using st2 p2 by (rule steady_sending) simp
  from consistent_maps [OF c] have "consistent ?w3"
    by (intro consistent_holding [OF c st3 i raw])
      (simp_all add: raw s keyed_by_pin_upd)
  then show ?thesis unfolding call by (simp add: world_of_then_return)
qed

lemma consistent_RemoveEdgeDetectionRegistration:
  assumes c: "consistent w" and a: "alive (RemoveEdgeDetectionRegistration L w)"
  shows "consistent (world_of (RemoveEdgeDetectionRegistration L w))"
proof (cases "open w \<and> polling w \<and> rPIO.registeredPins w L \<noteq> None")
  case False
  with c show ?thesis by (auto simp: RemoveEdgeDetectionRegistration_def)
next
  case True
  let ?m = "FromRemovePin L"
  let ?w2 = "w\<lparr>rPIO.registeredPins := (rPIO.registeredPins w)(L := None),
                trace := trace w @ [Detect L NoEdge]\<rparr>"
  let ?w3 = "world_of (chan_send ?m ?w2)"
  from True have call: "RemoveEdgeDetectionRegistration L w
      = andThen (chan_send ?m ?w2) (\<lambda>_ w3. Returns None w3)"
    by (auto simp: RemoveEdgeDetectionRegistration_def)
  from a have al: "alive (chan_send ?m ?w2)"
    unfolding call by (simp add: alive_then_return)
  from c have st: "steady w" by (simp add: consistent_def)
  then have st2: "steady ?w2" by (simp add: steady_flags)
  from True have p2: "polling ?w2" by simp
  from st2 p2 have pos: "0 < loops ?w2" by (simp add: steady_def one_loop_def)
  have pend: "pending_pass ?w2 = pending_pass w" by (simp add: pending_pass_upd)
  note f = chan_send_fields [OF st2 pos, of ?m] chan_send_frame [of ?m ?w2]
  from f al have i: "inbox ?w3 = Some ?m" and q: "poller ?w3 = fst (pending_pass w)"
    and s: "rPIO.registeredPins ?w3 = (rPIO.registeredPins w)(L := None)"
    by (simp_all add: pend)
  from q have raw: "rpioPoller.registeredPins (poller ?w3) = registry w"
    by (simp add: registry_def)
  have st3: "steady ?w3" using st2 p2 by (rule steady_sending) simp
  from consistent_maps [OF c] have "consistent ?w3"
    by (intro consistent_holding [OF c st3 i raw])
      (simp_all add: raw s keyed_by_pin_upd)
  then show ?thesis unfolding call by (simp add: world_of_then_return)
qed

lemma consistent_StopPolling:
  assumes c: "consistent w" and a: "alive (StopPolling w)"
  shows "consistent (world_of (StopPolling w))"
proof (cases "polling w")
  case False
  with c show ?thesis by (simp add: StopPolling_def)
next
  case True
  from a True have al: "alive (chan_send FromStop w)"
    by (simp add: StopPolling_def alive_then_return)
  from c have st: "steady w" by (simp add: consistent_def)
  from st True have pos: "0 < loops w" by (simp add: steady_def one_loop_def)
  from chan_send_fields(4,5) [OF st pos, of FromStop] al
  have ret: "returned (chan_send FromStop w) = Some ()" by simp
  from consistent_chan_send [OF c True al] have
    "consistent (world_of (chan_send FromStop w)\<lparr>polling := False\<rparr>)" by simp
  with True ret show ?thesis
    by (cases "chan_send FromStop w") (simp_all add: StopPolling_def)
qed

lemma consistent_flags:
  "consistent (w\<lparr>open := b\<rparr>) = consistent w"
  "consistent (w\<lparr>trace := t\<rparr>) = consistent w"
  by (simp_all add: consistent_def registry_def pending_pass_upd steady_flags)

lemma exec_consistent:
  assumes c: "consistent w" and a: "alive (exec a w)"
  shows "consistent (world_of (exec a w))"
proof (cases a)
  case (CallStart err)
  with c a show ?thesis
    by (auto simp: Start_def Let_def consistent_flags split: option.splits)
next
  case CallPoll
  show ?thesis
  proof (cases "polling w")
    case True
    with c CallPoll show ?thesis by (simp add: Poll_def)
  next
    case False
    with c have i: "inbox w = None"
      by (auto simp: consistent_def steady_def split: option.splits)
    from c False i CallPoll show ?thesis
      by (simp add: Poll_def consistent_def registry_def pending_pass_def steady_def
          one_loop_def)
  qed
next
  case CallStopPolling
  with c a show ?thesis by (simp add: consistent_StopPolling)
next
  case (CallStop err)
  show ?thesis
  proof (cases "open w")
    case False
    with c CallStop show ?thesis by (simp add: Stop_def)
  next
    case True
    show ?thesis
    proof (cases "StopPolling w")
      case (Returns u w1)
      then have "alive (StopPolling w)" by simp
      with c have "consistent (world_of (StopPolling w))" by (rule consistent_StopPolling)
      with Returns have w1: "consistent w1" by simp
      from c have "consistent w" .
      with w1 Returns True CallStop a show ?thesis
        by (auto simp: Stop_def Let_def consistent_flags split: option.splits)
    next
      case (Blocks w1)
      then have "alive (StopPolling w)" by simp
      with c have "consistent (world_of (StopPolling w))" by (rule consistent_StopPolling)
      with Blocks True CallStop c show ?thesis
        by (auto simp: Stop_def Let_def StopPolling_def split: if_splits)
    next
      case (Panics m w1)
      with True CallStop a c show ?thesis
        by (auto simp: Stop_def Let_def StopPolling_def split: if_splits)
    qed
  qed
next
  case (CallRegisterEdgeDetection k e cb)
  with a have "alive (RegisterEdgeDetection k e cb w)" by (simp add: alive_then_return)
  with c have "consistent (world_of (RegisterEdgeDetection k e cb w))"
    by (rule consistent_RegisterEdgeDetection)
  with CallRegisterEdgeDetection show ?thesis by (simp add: world_of_then_return)
next
  case (CallRemoveEdgeDetectionRegistration k)
  with a have "alive (RemoveEdgeDetectionRegistration k w)" by (simp add: alive_then_return)
  with c have "consistent (world_of (RemoveEdgeDetectionRegistration k w))"
    by (rule consistent_RemoveEdgeDetectionRegistration)
  with CallRemoveEdgeDetectionRegistration show ?thesis by (simp add: world_of_then_return)
next
  case (CallUpdatePollFreq d)
  show ?thesis
  proof (cases "open w \<and> polling w")
    case True
    with a CallUpdatePollFreq have al: "alive (chan_send (FromNewPollFreq d) w)"
      by (simp add: UpdatePollFreq_def alive_then_return)
    from True have p: "polling w" by simp
    let ?W = "world_of (chan_send (FromNewPollFreq d) w)"
    have set: "consistent (?W\<lparr>polling := True\<rparr>)"
      using consistent_chan_send [OF c p al] by simp
    have "polling ?W = True"
      using chan_send_frame [of "FromNewPollFreq d" w] p by simp
    moreover have "?W\<lparr>polling := polling ?W\<rparr> = ?W" by simp
    ultimately have "?W\<lparr>polling := True\<rparr> = ?W" by simp
    with set have "consistent ?W" by simp
    with True CallUpdatePollFreq show ?thesis
      by (simp add: UpdatePollFreq_def world_of_then_return)
  next
    case False
    from c have "loops w = 0" if "\<not> polling w"
      using that by (simp add: consistent_def steady_def one_loop_def)
    with False c CallUpdatePollFreq show ?thesis
      by (auto simp: UpdatePollFreq_def chan_send_def world_of_then_return)
  qed
next
  case (TickerFires det)
  show ?thesis
  proof (cases "loops w = 0")
    case True
    with c TickerFires show ?thesis by (simp add: ticker_fires_def)
  next
    case False
    from c have h: "consistent (world_of (poll_handle w))" by (rule consistent_poll_handle)
    from c have st: "steady w" by (simp add: consistent_def)
    from steady_pending [OF st] have l: "loops (world_of (poll_handle w)) = loops w"
      by (simp add: poll_handle_fields)
    from False have i: "inbox (world_of (poll_handle w)) = None"
      by (simp add: poll_handle_fields)
    show ?thesis
    proof (cases "poll_handle w")
      case (Returns u wh)
      with h l i False have wh: "consistent wh" "loops wh \<noteq> 0" "inbox wh = None" by simp_all
      let ?wt = "world_of (poll_iteration (FromTicker det) wh)"
      from wh(1) have "steady wh" by (simp add: consistent_def)
      then have "steady ?wt"
        by (simp add: steady_def one_loop_def poll_iteration_fields poll_iteration_frame
            split: option.splits)
      with wh(1) have "consistent ?wt"
        by (rule consistent_same)
          (simp_all add: poll_iteration_fields poll_iteration_frame)
      with Returns False wh(2) TickerFires show ?thesis
        by (simp add: ticker_fires_def)
    next
      case (Blocks wh)
      with h False TickerFires show ?thesis by (simp add: ticker_fires_def)
    next
      case (Panics m wh)
      with h False TickerFires show ?thesis by (simp add: ticker_fires_def)
    qed
  qed
next
  case LoopRuns
  with c show ?thesis by (simp add: consistent_poll_handle)
qed

lemma run_consistent:
  "consistent w \<Longrightarrow> alive (run acts w) \<Longrightarrow> consistent (world_of (run acts w))"
proof (induction acts arbitrary: w)
  case Nil
  then show ?case by simp
next
  case (Cons a acts)
  show ?case
  proof (cases "exec a w")
    case (Returns u w1)
    with Cons.prems(1) exec_consistent [of w a] have "consistent w1" by simp
    moreover from Returns Cons.prems(2) have "alive (run acts w1)" by simp
    ultimately have "consistent (world_of (run acts w1))" by (rule Cons.IH)
    with Returns show ?thesis by simp
  next
    case (Blocks w1)
    with Cons.prems(1) exec_consistent [of w a] show ?thesis by simp
  next
    case (Panics m w1)
    with Cons.prems(2) show ?thesis by simp
  qed
qed


lemma run_alive_consistent:
  "alive (run acts RPIOClient) \<Longrightarrow> consistent (world_of (run acts RPIOClient))"
  using consistent_init by (rule run_consistent)


lemma ready_at_select: "inbox w = None \<Longrightarrow> loop_ready w = (0 < loops w)"
  by (simp add: loop_ready_def pending_pass_def)

text \<open>A send to a loop that is ready to receive.\<close>

lemma chan_send_ready:
  "loop_ready w \<Longrightarrow> body_later c \<Longrightarrow>
   chan_send c w =
     Returns ()
       (w\<lparr>poller := fst (pending_pass w), inbox := Some c,
          trace := trace w @ fst (snd (pending_pass w)) @ [Sent c]\<rparr>)"
  by (simp add: chan_send_def poll_handle_ready loop_ready_def)

lemma chan_send_stop_ready:
  "loop_ready w \<Longrightarrow>
   chan_send FromStop w =
     Returns ()
       (w\<lparr>poller := fst (pending_pass w), inbox := None,
          trace := trace w @ fst (snd (pending_pass w)) @ [Sent FromStop],
          loops := loops w - 1\<rparr>)"
  by (simp add: chan_send_def poll_handle_ready loop_ready_def poll_iteration_def)

lemma returned_then_return:
  "returned (andThen out (\<lambda>r w. Returns (g r) (h w))) = map_option g (returned out)"
  by (cases out) simp_all

text \<open>A pin without an entry in the poller's map gets no callback until it is registered.\<close>

lemma poll_unregistered:
  "rpioPoller.registeredPins p L = None \<Longrightarrow> \<not> list_ex (registers L) cs \<Longrightarrow>
   filter (callback_for L) (fst (snd (poll cs p))) = []
   \<and> rpioPoller.registeredPins (fst (poll cs p)) L = None"
proof (induction cs arbitrary: p)
  case Nil
  then show ?case by simp
next
  case (Cons c cs)
  from Cons.prems(2) have c: "\<not> registers L c" and cs: "\<not> list_ex (registers L) cs"
    by simp_all
  obtain p' started ending where sel: "poll_select c p = (p', started, ending)"
    by (cases "poll_select c p")
  from sel c Cons.prems(1) have p': "rpioPoller.registeredPins p' L = None"
    and started: "filter (callback_for L) started = []"
    by (cases c; auto simp: tick_for split: if_splits)+
  from Cons.IH [OF p' cs] sel started p' show ?case
    by (auto split: prod.splits next_step.splits)
qed

subsection \<open>Registration and removal\<close>





text \<open>
  C9. Whenever \<^verbatim>\<open>RegisterEdgeDetection\<close>, \<^verbatim>\<open>RemoveEdgeDetectionRegistration\<close> or
  \<^verbatim>\<open>UpdatePollFreq\<close> returns an error, the state at the return is the state at the call:
  the flags, both maps, the ticker, the number of loops and what the loop holds are as
  they were, and the trace has no new entry, so there was no call of \<^verbatim>\<open>Detect\<close> and no
  send.
\<close>

theorem errors_leave_state:
  "(returned (RegisterEdgeDetection L e cb w) = Some (Some msg) \<longrightarrow>
      world_of (RegisterEdgeDetection L e cb w) = w)
   \<and> (returned (RemoveEdgeDetectionRegistration L w) = Some (Some msg) \<longrightarrow>
      world_of (RemoveEdgeDetectionRegistration L w) = w)
   \<and> (returned (UpdatePollFreq d w) = Some (Some msg) \<longrightarrow>
      world_of (UpdatePollFreq d w) = w)"
  by (auto simp: RegisterEdgeDetection_def RemoveEdgeDetectionRegistration_def
      UpdatePollFreq_def Let_def returned_then_return split: if_splits)

theorem errors_leave_state_witness:
  "returned (RegisterEdgeDetection 4 RiseEdge 9 example_world) = Some (Some AlreadyRegistered)
   \<and> world_of (RegisterEdgeDetection 4 RiseEdge 9 example_world) = example_world
   \<and> returned (RemoveEdgeDetectionRegistration 5 example_world) = Some (Some NotRegistered)
   \<and> world_of (RemoveEdgeDetectionRegistration 5 example_world) = example_world
   \<and> returned (UpdatePollFreq 5000000 (RPIOClient :: nat world)) = Some (Some PollingNotStarted)
   \<and> world_of (UpdatePollFreq 5000000 (RPIOClient :: nat world)) = RPIOClient"
proof -
  have r: "returned (RegisterEdgeDetection 4 RiseEdge 9 example_world)
      = Some (Some AlreadyRegistered)"
    by (simp add: RegisterEdgeDetection_def example_world_def)
  have d: "returned (RemoveEdgeDetectionRegistration 5 example_world)
      = Some (Some NotRegistered)"
    by (simp add: RemoveEdgeDetectionRegistration_def example_world_def)
  have u: "returned (UpdatePollFreq 5000000 (RPIOClient :: nat world))
      = Some (Some PollingNotStarted)"
    by (simp add: UpdatePollFreq_def RPIOClient_def)
  note r' = errors_leave_state [where L = 4 and e = RiseEdge and cb = 9 and w = example_world
      and msg = AlreadyRegistered, THEN conjunct1, THEN mp, OF r]
  note d' = errors_leave_state [where L = 5 and w = example_world and msg = NotRegistered,
      THEN conjunct2, THEN conjunct1, THEN mp, OF d]
  note u' = errors_leave_state [where d = 5000000 and w = "RPIOClient :: nat world"
      and msg = PollingNotStarted, THEN conjunct2, THEN conjunct2, THEN mp, OF u]
  show ?thesis
    by (intro conjI) (fact r r' d d' u u')+
qed


subsection \<open>The lifecycle\<close>

text \<open>
  C4. Each of \<^verbatim>\<open>Start\<close>, \<^verbatim>\<open>Poll\<close>, \<^verbatim>\<open>StopPolling\<close> and \<^verbatim>\<open>Stop\<close>, called twice in a row,
  does what one call does, in every state and whatever the GPIO library answers: the
  second call finds the flag already set as the first one left it and returns at once,
  and where the first call blocks or panics there is no second one.
\<close>

theorem lifecycle_idempotent:
  "andThen (Start err w) (\<lambda>_. Start err') = Start err w
   \<and> andThen (Poll w) (\<lambda>_. Poll) = Poll w
   \<and> andThen (StopPolling w) (\<lambda>_. StopPolling) = StopPolling w
   \<and> andThen (Stop err w) (\<lambda>_. Stop err') = Stop err w"
proof -
  have a: "andThen (Start err w) (\<lambda>_. Start err') = Start err w"
    by (simp add: Start_def Let_def split: option.splits)
  have b: "andThen (Poll w) (\<lambda>_. Poll) = Poll w"
    by (simp add: Poll_def)
  have c: "andThen (StopPolling w) (\<lambda>_. StopPolling) = StopPolling w"
    by (cases "chan_send FromStop w") (simp_all add: StopPolling_def)
  have d: "andThen (Stop err w) (\<lambda>_. Stop err') = Stop err w"
    by (cases "StopPolling w") (simp_all add: Stop_def Let_def split: option.splits)
  from a b c d show ?thesis
    by (intro conjI)
qed

text \<open>What handing over the stop signal does to the registry.\<close>

lemma chan_send_stop_maps:
  "registry (world_of (chan_send FromStop w)) = registry w
   \<and> (inbox w = None \<longrightarrow>
        rpioPoller.registeredPins (poller (world_of (chan_send FromStop w)))
          = rpioPoller.registeredPins (poller w))"
  by (cases "inbox w")
    (auto simp: chan_send_def poll_handle_def poll_iteration_def registry_def
      pending_pass_def Let_def split: prod.splits next_step.splits)

lemma StopPolling_maps:
  "registry (world_of (StopPolling w)) = registry w
   \<and> (inbox w = None \<longrightarrow>
        rpioPoller.registeredPins (poller (world_of (StopPolling w)))
          = rpioPoller.registeredPins (poller w))"
  using chan_send_stop_maps [of w]
  by (cases "chan_send FromStop w")
    (auto simp: StopPolling_def registry_def pending_pass_upd)

lemma Stop_maps:
  "registry (world_of (Stop err w)) = registry w
   \<and> (inbox w = None \<longrightarrow>
        rpioPoller.registeredPins (poller (world_of (Stop err w)))
          = rpioPoller.registeredPins (poller w))"
  using StopPolling_maps [of w]
  by (cases "StopPolling w")
    (auto simp: Stop_def Let_def registry_def pending_pass_upd split: option.splits)

text \<open>
  C10. \<^verbatim>\<open>Stop\<close> and \<^verbatim>\<open>StopPolling\<close> leave both maps as they are, however the call ends:
  the controller's map in every state, and the poller's map with the message the loop
  holds counted in, which is the poller's map itself where the loop holds none (a held
  registration or removal is applied by the loop on its way to the stop signal, not by
  \<^verbatim>\<open>Stop\<close>). On an open, polling controller with a loop ready to receive \<^verbatim>\<open>Stop\<close> hands
  the stop signal to the loop, closes the GPIO and clears the two flags, and nothing
  else. So for a pin \<open>L\<close> registered before \<^verbatim>\<open>Stop\<close>, the calls \<^verbatim>\<open>Stop\<close>, \<^verbatim>\<open>Start\<close>, \<^verbatim>\<open>Poll\<close>,
  \<^verbatim>\<open>RegisterEdgeDetection(L, ...)\<close> all return, the last one with the error for "already
  registered".
\<close>

theorem Stop_keeps_registrations:
  "rPIO.registeredPins (world_of (Stop err w)) = rPIO.registeredPins w
   \<and> registry (world_of (Stop err w)) = registry w
   \<and> (inbox w = None \<longrightarrow>
        rpioPoller.registeredPins (poller (world_of (Stop err w)))
          = rpioPoller.registeredPins (poller w))
   \<and> rPIO.registeredPins (world_of (StopPolling w)) = rPIO.registeredPins w
   \<and> registry (world_of (StopPolling w)) = registry w
   \<and> (inbox w = None \<longrightarrow>
        rpioPoller.registeredPins (poller (world_of (StopPolling w)))
          = rpioPoller.registeredPins (poller w))
   \<and> (open w \<and> polling w \<and> loop_ready w \<longrightarrow>
        Stop None w =
          Returns ()
            (w\<lparr>poller := fst (pending_pass w), inbox := None,
               loops := loops w - 1, polling := False,
               trace := trace w @ fst (snd (pending_pass w)) @ [Sent FromStop, RpioClose],
               open := False\<rparr>))
   \<and> (open w \<and> polling w \<and> 0 < loops w \<and> inbox w = None \<longrightarrow>
        Stop None w =
          Returns ()
            (w\<lparr>loops := loops w - 1, polling := False,
               trace := trace w @ [Sent FromStop, RpioClose], open := False\<rparr>))
   \<and> ((polling w \<longrightarrow> loop_ready w) \<and> rPIO.registeredPins w L \<noteq> None \<longrightarrow>
        returned
          (andThen (Stop None w) (\<lambda>_ w1.
             andThen (Start None w1) (\<lambda>_ w2.
               andThen (Poll w2) (\<lambda>_. RegisterEdgeDetection L e cb))))
          = Some (Some AlreadyRegistered))"
proof -
  have general: "Stop None w =
          Returns ()
            (w\<lparr>poller := fst (pending_pass w), inbox := None,
               loops := loops w - 1, polling := False,
               trace := trace w @ fst (snd (pending_pass w)) @ [Sent FromStop, RpioClose],
               open := False\<rparr>)"
    if "open w" "polling w" "loop_ready w"
    using that(1,2) chan_send_stop_ready [OF that(3)]
    by (simp add: Stop_def StopPolling_def)
  have simple: "Stop None w =
          Returns ()
            (w\<lparr>loops := loops w - 1, polling := False,
               trace := trace w @ [Sent FromStop, RpioClose], open := False\<rparr>)"
    if "open w" "polling w" "0 < loops w" "inbox w = None"
  proof -
    from that(3,4) have "loop_ready w" by (simp add: ready_at_select)
    from general [OF that(1,2) this] that(4) show ?thesis
      by (simp add: pending_pass_def)
  qed
  have chain: "returned
          (andThen (Stop None w) (\<lambda>_ w1.
             andThen (Start None w1) (\<lambda>_ w2.
               andThen (Poll w2) (\<lambda>_. RegisterEdgeDetection L e cb))))
          = Some (Some AlreadyRegistered)"
    if ready: "polling w \<longrightarrow> loop_ready w" and held: "rPIO.registeredPins w L \<noteq> None"
  proof (cases "open w \<and> polling w")
    case True
    with ready have "loop_ready w" by simp
    with True have "Stop None w =
          Returns ()
            (w\<lparr>poller := fst (pending_pass w), inbox := None,
               loops := loops w - 1, polling := False,
               trace := trace w @ fst (snd (pending_pass w)) @ [Sent FromStop, RpioClose],
               open := False\<rparr>)"
      by (simp add: general)
    with held show ?thesis
      by (simp add: Start_def Poll_def RegisterEdgeDetection_def)
  next
    case False
    with held show ?thesis
      by (auto simp: Stop_def Start_def Poll_def RegisterEdgeDetection_def)
  qed
  from Stop_shadow [of err w] Stop_maps [of err w] StopPolling_frame [of w]
    StopPolling_maps [of w] general simple chain
  show ?thesis
    by blast
qed

theorem Stop_keeps_registrations_witness:
  "open example_world \<and> polling example_world \<and> 0 < loops example_world
   \<and> inbox example_world = None
   \<and> rPIO.registeredPins example_world 4 \<noteq> None
   \<and> returned (Stop None example_world) = Some ()
   \<and> rPIO.registeredPins (world_of (Stop None example_world)) = [4 \<mapsto> True]
   \<and> rpioPoller.registeredPins (poller (world_of (Stop None example_world)))
       = [4 \<mapsto> \<lparr>pin = 4, edge = FallEdge, callback = 7\<rparr>]
   \<and> \<not> open (world_of (Stop None example_world))
   \<and> \<not> polling (world_of (Stop None example_world))
   \<and> returned
        (andThen (Stop None example_world) (\<lambda>_ w1.
           andThen (Start None w1) (\<lambda>_ w2.
             andThen (Poll w2) (\<lambda>_. RegisterEdgeDetection 4 RiseEdge 9))))
       = Some (Some AlreadyRegistered)"
proof -
  have pre: "open example_world \<and> polling example_world \<and> 0 < loops example_world
      \<and> inbox example_world = None"
    by (simp add: example_world_def)
  have held: "rPIO.registeredPins example_world 4 \<noteq> None"
    by (simp add: example_world_def)
  have ready: "polling example_world \<longrightarrow> loop_ready example_world"
    by (simp add: example_world_def loop_ready_def pending_pass_def)
  have both: "(polling example_world \<longrightarrow> loop_ready example_world)
      \<and> rPIO.registeredPins example_world 4 \<noteq> None"
    by (intro conjI) (fact ready held)+
  have empty: "inbox example_world = None"
    by (simp add: example_world_def)
  note facts = Stop_keeps_registrations [of None example_world 4 RiseEdge 9]
  note stop = facts [THEN conjunct2, THEN conjunct2, THEN conjunct2, THEN conjunct2,
      THEN conjunct2, THEN conjunct2, THEN conjunct2, THEN conjunct1, THEN mp, OF pre]
  note kept = facts [THEN conjunct1]
  note kept' = facts [THEN conjunct2, THEN conjunct2, THEN conjunct1, THEN mp, OF empty]
  note chain = facts [THEN conjunct2, THEN conjunct2, THEN conjunct2, THEN conjunct2,
      THEN conjunct2, THEN conjunct2, THEN conjunct2, THEN conjunct2, THEN mp, OF both]
  have shadow: "rPIO.registeredPins (world_of (Stop None example_world)) = [4 \<mapsto> True]"
    unfolding kept by (simp add: example_world_def)
  have registry: "rpioPoller.registeredPins (poller (world_of (Stop None example_world)))
       = [4 \<mapsto> \<lparr>pin = 4, edge = FallEdge, callback = 7\<rparr>]"
    unfolding kept' by (simp add: example_world_def)
  have flags: "returned (Stop None example_world) = Some ()"
    "\<not> open (world_of (Stop None example_world))"
    "\<not> polling (world_of (Stop None example_world))"
    unfolding stop by simp_all
  show ?thesis
    by (intro conjI) (fact pre [THEN conjunct1] pre [THEN conjunct2, THEN conjunct1]
        pre [THEN conjunct2, THEN conjunct2, THEN conjunct1] empty held flags shadow
        registry chain)+
qed

text \<open>
  C6. The claim has \<^verbatim>\<open>UpdatePollFreq(d)\<close> send \<open>d\<close> and return success whenever \<open>open\<close> is
  true, without requiring \<open>polling\<close>. The code does test \<open>open\<close> only: with \<open>open\<close> false
  it returns an error, whose text is "polling has not yet started" and not the one of
  "not open", and leaves the state as it is. But with \<open>open\<close> true and no poll goroutine
  running, nobody receives from the unbuffered channel \<^verbatim>\<open>newPollFreq\<close>, and the call
  blocks at the send for ever; this is so in every state a run from \<^verbatim>\<open>init\<close> reaches in
  which \<open>open\<close> is true and \<open>polling\<close> is false. \<^verbatim>\<open>RegisterEdgeDetection\<close> and
  \<^verbatim>\<open>RemoveEdgeDetectionRegistration\<close> return the error for "not polling" in these states,
  which is the test the error text of \<^verbatim>\<open>UpdatePollFreq\<close> names. With a loop that is ready
  to receive, the call hands \<open>d\<close> over and returns \<^verbatim>\<open>nil\<close>; in its next pass the loop
  sets its ticker to \<open>d\<close> where \<open>d\<close> is positive, and panics in \<^verbatim>\<open>Reset\<close> where it is not.
\<close>

theorem UpdatePollFreq_blocks:
  "(\<not> open w \<longrightarrow> UpdatePollFreq d (w :: 'cb world) = Returns (Some PollingNotStarted) w)
   \<and> PollingNotStarted \<noteq> NotOpen
   \<and> (open w \<and> loops w = 0 \<longrightarrow> UpdatePollFreq d w = Blocks w)
   \<and> (open (world_of (run acts (RPIOClient :: 'cb world)))
        \<and> \<not> polling (world_of (run acts (RPIOClient :: 'cb world))) \<longrightarrow>
        UpdatePollFreq d (world_of (run acts (RPIOClient :: 'cb world)))
          = Blocks (world_of (run acts (RPIOClient :: 'cb world)))
        \<and> RegisterEdgeDetection L e cb (world_of (run acts (RPIOClient :: 'cb world)))
          = Returns (Some NotPolling) (world_of (run acts (RPIOClient :: 'cb world)))
        \<and> RemoveEdgeDetectionRegistration L (world_of (run acts (RPIOClient :: 'cb world)))
          = Returns (Some NotPolling) (world_of (run acts (RPIOClient :: 'cb world))))
   \<and> (open w \<and> loop_ready w \<longrightarrow>
        UpdatePollFreq d w =
          Returns None
            (w\<lparr>poller := fst (pending_pass w),
               inbox := Some (FromNewPollFreq d),
               trace := trace w @ fst (snd (pending_pass w)) @ [Sent (FromNewPollFreq d)]\<rparr>))
   \<and> (open w \<and> 0 < loops w \<and> inbox w = None \<longrightarrow>
        UpdatePollFreq d w =
          Returns None
            (w\<lparr>inbox := Some (FromNewPollFreq d),
               trace := trace w @ [Sent (FromNewPollFreq d)]\<rparr>)
        \<and> poll_handle (world_of (UpdatePollFreq d w)) =
          (if d \<le> 0
           then Panics ''non-positive interval for Ticker.Reset''
                  (w\<lparr>inbox := None, trace := trace w @ [Sent (FromNewPollFreq d)]\<rparr>)
           else Returns ()
                  (w\<lparr>poller := (poller w)\<lparr>ticker := d\<rparr>, inbox := None,
                     trace := trace w @ [Sent (FromNewPollFreq d)]\<rparr>)))"
proof -
  let ?W = "world_of (run acts (RPIOClient :: 'cb world))"
  have refused: "\<not> open w \<longrightarrow> UpdatePollFreq d w = Returns (Some PollingNotStarted) w"
    by (simp add: UpdatePollFreq_def)
  have texts: "PollingNotStarted \<noteq> NotOpen"
    by (simp add: PollingNotStarted_def NotOpen_def)
  have stuck: "UpdatePollFreq d w = Blocks w" if "open w" "loops w = 0" for w :: "'cb world"
    using that by (simp add: UpdatePollFreq_def chan_send_def)
  have reached: "UpdatePollFreq d ?W = Blocks ?W
      \<and> RegisterEdgeDetection L e cb ?W = Returns (Some NotPolling) ?W
      \<and> RemoveEdgeDetectionRegistration L ?W = Returns (Some NotPolling) ?W"
    if "open ?W" "\<not> polling ?W"
  proof -
    from that(2) run_loop_running [of acts] have "loops ?W = 0" by simp
    with that(1) have "UpdatePollFreq d ?W = Blocks ?W" by (rule stuck)
    moreover from that have "RegisterEdgeDetection L e cb ?W = Returns (Some NotPolling) ?W"
      by (simp add: RegisterEdgeDetection_def)
    moreover from that have "RemoveEdgeDetectionRegistration L ?W = Returns (Some NotPolling) ?W"
      by (simp add: RemoveEdgeDetectionRegistration_def)
    ultimately show ?thesis by (intro conjI)
  qed
  have sent: "UpdatePollFreq d w =
          Returns None
            (w\<lparr>poller := fst (pending_pass w),
               inbox := Some (FromNewPollFreq d),
               trace := trace w @ fst (snd (pending_pass w)) @ [Sent (FromNewPollFreq d)]\<rparr>)"
    if "open w" "loop_ready w"
  proof -
    from that(2) have "chan_send (FromNewPollFreq d) w =
        Returns ()
          (w\<lparr>poller := fst (pending_pass w), inbox := Some (FromNewPollFreq d),
             trace := trace w @ fst (snd (pending_pass w)) @ [Sent (FromNewPollFreq d)]\<rparr>)"
      by (rule chan_send_ready) simp
    with that(1) show ?thesis by (simp add: UpdatePollFreq_def)
  qed
  have simple: "UpdatePollFreq d w =
          Returns None
            (w\<lparr>inbox := Some (FromNewPollFreq d),
               trace := trace w @ [Sent (FromNewPollFreq d)]\<rparr>)"
    if "open w" "0 < loops w" "inbox w = None"
  proof -
    from that(2,3) have "loop_ready w" by (simp add: ready_at_select)
    from sent [OF that(1) this] that(3) show ?thesis
      by (simp add: pending_pass_def)
  qed
  have pass: "poll_handle (world_of (UpdatePollFreq d w)) =
          (if d \<le> 0
           then Panics ''non-positive interval for Ticker.Reset''
                  (w\<lparr>inbox := None, trace := trace w @ [Sent (FromNewPollFreq d)]\<rparr>)
           else Returns ()
                  (w\<lparr>poller := (poller w)\<lparr>ticker := d\<rparr>, inbox := None,
                     trace := trace w @ [Sent (FromNewPollFreq d)]\<rparr>))"
    if "open w" "0 < loops w" "inbox w = None"
    using that(2) unfolding simple [OF that]
    by (simp add: poll_handle_def poll_iteration_def)
  from refused texts stuck reached sent simple pass show ?thesis
    by blast
qed

theorem UpdatePollFreq_blocks_witness:
  "run [CallStart None] RPIOClient = Returns () opened_world
   \<and> open opened_world \<and> \<not> polling opened_world
   \<and> UpdatePollFreq 250000000 opened_world = Blocks opened_world
   \<and> RegisterEdgeDetection 4 RiseEdge 9 opened_world = Returns (Some NotPolling) opened_world
   \<and> RemoveEdgeDetectionRegistration 4 opened_world = Returns (Some NotPolling) opened_world
   \<and> UpdatePollFreq 250000000 (RPIOClient :: nat world)
       = Returns (Some PollingNotStarted) RPIOClient
   \<and> returned (UpdatePollFreq 250000000 example_world) = Some None
   \<and> ticker (poller (world_of (poll_handle
        (world_of (UpdatePollFreq 250000000 example_world))))) = 250000000
   \<and> returned (UpdatePollFreq 0 example_world) = Some None
   \<and> poll_handle (world_of (UpdatePollFreq 0 example_world))
       = Panics ''non-positive interval for Ticker.Reset''
           (example_world\<lparr>trace := trace example_world @ [Sent (FromNewPollFreq 0)]\<rparr>)"
proof -
  let ?W = "world_of (run [CallStart None] (RPIOClient :: nat world))"
  have W: "?W = opened_world"
    by (simp only: opened_world_run world_of.simps)
  have opened: "open opened_world" "\<not> polling opened_world"
    by (simp_all add: opened_world_def)
  have pre: "open ?W \<and> \<not> polling ?W"
    unfolding W by (intro conjI) (fact opened)+
  note three = UpdatePollFreq_blocks [where acts = "[CallStart None] :: nat action list"
      and d = 250000000 and L = 4 and e = RiseEdge and cb = 9, THEN conjunct2, THEN conjunct2, THEN conjunct2,
      THEN conjunct1, THEN mp, OF pre, unfolded W]
  have closed: "\<not> open (RPIOClient :: nat world)"
    by (simp add: RPIOClient_def)
  note refused = UpdatePollFreq_blocks [where w = "RPIOClient :: nat world"
      and d = 250000000,
      THEN conjunct1, THEN mp, OF closed]
  have ready: "open example_world \<and> 0 < loops example_world \<and> inbox example_world = None"
    by (simp add: example_world_def)
  note good = UpdatePollFreq_blocks [where w = example_world and d = 250000000,
      THEN conjunct2, THEN conjunct2, THEN conjunct2, THEN conjunct2, THEN conjunct2,
      THEN mp, OF ready]
  note bad = UpdatePollFreq_blocks [where w = example_world and d = 0,
      THEN conjunct2, THEN conjunct2, THEN conjunct2, THEN conjunct2, THEN conjunct2,
      THEN mp, OF ready]
  have ok1: "returned (UpdatePollFreq 250000000 example_world) = Some None"
    unfolding good [THEN conjunct1] by simp
  have changed: "ticker (poller (world_of (poll_handle
        (world_of (UpdatePollFreq 250000000 example_world))))) = 250000000"
    unfolding good [THEN conjunct2] by simp
  have ok2: "returned (UpdatePollFreq 0 example_world) = Some None"
    unfolding bad [THEN conjunct1] by simp
  have died: "poll_handle (world_of (UpdatePollFreq 0 example_world))
       = Panics ''non-positive interval for Ticker.Reset''
           (example_world\<lparr>trace := trace example_world @ [Sent (FromNewPollFreq 0)]\<rparr>)"
    unfolding bad [THEN conjunct2] by (simp add: example_world_def)
  show ?thesis
    by (intro conjI)
      (fact opened_world_run opened three [THEN conjunct1] three [THEN conjunct2, THEN conjunct1]
        three [THEN conjunct2, THEN conjunct2] refused ok1 changed ok2 died)+
qed

text \<open>
  What a call that returned \<^verbatim>\<open>nil\<close> has left: the loop holds the message, its pass on
  what it held before is done, and the controller's map is written.
\<close>

lemma chan_send_Returns_held:
  assumes "chan_send c w = Returns () w1" and "body_later c"
  shows "0 < loops w \<and> 0 < loops w1 \<and> inbox w1 = Some c
    \<and> poller w1 = fst (pending_pass w)
    \<and> rPIO.registeredPins w1 = rPIO.registeredPins w
    \<and> open w1 = open w \<and> polling w1 = polling w"
proof -
  from assms have run: "0 < loops w"
    by (auto simp: chan_send_def split: if_splits)
  from assms obtain wh where h: "poll_handle w = Returns () wh"
    and l: "0 < loops wh"
    and w1: "w1 = wh\<lparr>trace := trace wh @ [Sent c], inbox := Some c\<rparr>"
    by (auto simp: chan_send_def Let_def andThen_Returns split: if_splits)
  from h have wh: "wh = world_of (poll_handle w)" by simp
  from run have "poller wh = fst (pending_pass w)"
    unfolding wh by (simp add: poll_handle_fields)
  moreover have "rPIO.registeredPins wh = rPIO.registeredPins w"
    "open wh = open w" "polling wh = polling w"
    unfolding wh by (simp_all add: poll_handle_frame)
  ultimately show ?thesis using run l w1 by simp
qed

lemma RegisterEdgeDetection_Returns:
  assumes "RegisterEdgeDetection L e cb w = Returns None w1"
  shows "open w \<and> polling w \<and> rPIO.registeredPins w L = None
    \<and> 0 < loops w \<and> 0 < loops w1
    \<and> inbox w1 = Some (FromNewPin \<lparr>pin = L, edge = e, callback = cb\<rparr>)
    \<and> poller w1 = fst (pending_pass w)
    \<and> rPIO.registeredPins w1 = (rPIO.registeredPins w)(L \<mapsto> True)
    \<and> open w1 \<and> polling w1"
proof -
  let ?w2 = "w\<lparr>rPIO.registeredPins := (rPIO.registeredPins w)(L \<mapsto> True),
                trace := trace w @ [Detect L e]\<rparr>"
  from assms have guard: "open w \<and> polling w \<and> rPIO.registeredPins w L = None"
    by (auto simp: RegisterEdgeDetection_def NotOpen_def NotPolling_def
        AlreadyRegistered_def split: if_splits)
  with assms have "chan_send (FromNewPin \<lparr>pin = L, edge = e, callback = cb\<rparr>) ?w2
      = Returns () w1"
    by (auto simp: RegisterEdgeDetection_def andThen_Returns)
  from chan_send_Returns_held [OF this] guard show ?thesis
    by (simp add: pending_pass_upd)
qed

lemma RemoveEdgeDetectionRegistration_Returns:
  assumes "RemoveEdgeDetectionRegistration L w = Returns None w1"
  shows "open w \<and> polling w \<and> rPIO.registeredPins w L \<noteq> None
    \<and> 0 < loops w \<and> 0 < loops w1
    \<and> inbox w1 = Some (FromRemovePin L)
    \<and> poller w1 = fst (pending_pass w)
    \<and> rPIO.registeredPins w1 = (rPIO.registeredPins w)(L := None)
    \<and> open w1 \<and> polling w1"
proof -
  let ?w2 = "w\<lparr>rPIO.registeredPins := (rPIO.registeredPins w)(L := None),
                trace := trace w @ [Detect L NoEdge]\<rparr>"
  from assms have guard: "open w \<and> polling w \<and> rPIO.registeredPins w L \<noteq> None"
    by (auto simp: RemoveEdgeDetectionRegistration_def NotOpen_def NotPolling_def
        NotRegistered_def split: if_splits)
  with assms have "chan_send (FromRemovePin L) ?w2 = Returns () w1"
    by (auto simp: RemoveEdgeDetectionRegistration_def andThen_Returns)
  from chan_send_Returns_held [OF this] guard show ?thesis
    by (simp add: pending_pass_upd)
qed

text \<open>The pass of the loop on a registration or a removal it holds.\<close>

lemma poll_handle_held:
  "0 < loops w \<Longrightarrow> inbox w = Some c \<Longrightarrow> body_later c \<Longrightarrow> \<not> doomed w \<Longrightarrow>
   poll_handle w =
     Returns () (w\<lparr>inbox := None, poller := fst (poll_select c (poller w))\<rparr>)"
  by (cases c)
    (simp_all add: poll_handle_def poll_iteration_def doomed_def)

subsection \<open>The poller's passes\<close>

text \<open>
  C2. When the ticker fires while the poller's map holds a registration \<open>r\<close> under the
  key \<open>L\<close>, and \<^verbatim>\<open>L.EdgeDetected()\<close> answers true in this pass, then the pass starts
  exactly one callback goroutine for \<open>L\<close>: the callback of \<open>r\<close>, applied to the edge of
  \<open>r\<close>; the pass leaves the poller as it is and the loop goes on. In particular, after
  \<^verbatim>\<open>RegisterEdgeDetection(L, edge, cb)\<close> has returned \<^verbatim>\<open>nil\<close>, the next tick, which the
  loop receives once it has stored the registration it holds, comes with an edge on
  \<open>L\<close>: it adds to the trace exactly one callback goroutine for \<open>L\<close>, and it is \<open>cb\<close>
  applied to \<open>edge\<close>.
\<close>

theorem tick_invokes_once:
  "(rpioPoller.registeredPins p L = Some r \<and> edgeDetected L \<longrightarrow>
      filter (callback_for L) (fst (snd (poll_select (FromTicker edgeDetected) p)))
        = [GoCallback L (callback r) (edge r)]
      \<and> fst (poll_select (FromTicker edgeDetected) p) = p
      \<and> snd (snd (poll_select (FromTicker edgeDetected) p)) = Again)
   \<and> (RegisterEdgeDetection L e cb w = Returns None w1 \<and> edgeDetected L \<longrightarrow>
      returned (ticker_fires edgeDetected w1) = Some ()
      \<and> filter (callback_for L)
          (drop (length (trace w1)) (trace (world_of (ticker_fires edgeDetected w1))))
        = [GoCallback L cb e])"
proof -
  have "returned (ticker_fires edgeDetected w1) = Some ()
      \<and> filter (callback_for L)
          (drop (length (trace w1)) (trace (world_of (ticker_fires edgeDetected w1))))
        = [GoCallback L cb e]"
    if reg: "RegisterEdgeDetection L e cb w = Returns None w1" and det: "edgeDetected L"
  proof -
    from RegisterEdgeDetection_Returns [OF reg] have running: "0 < loops w1"
      and held: "inbox w1 = Some (FromNewPin \<lparr>pin = L, edge = e, callback = cb\<rparr>)"
      by simp_all
    from running held det show ?thesis
      by (simp add: ticker_fires_def poll_handle_def poll_iteration_def tick_for)
  qed
  then show ?thesis by (simp add: tick_for)
qed

theorem tick_invokes_once_witness:
  "rpioPoller.registeredPins (poller example_world) 4
     = Some \<lparr>pin = 4, edge = FallEdge, callback = 7\<rparr>
   \<and> (4 :: pin) = 4
   \<and> filter (callback_for 4)
        (fst (snd (poll_select (FromTicker ((=) 4)) (poller example_world))))
       = [GoCallback 4 7 FallEdge]
   \<and> returned (RegisterEdgeDetection 5 RiseEdge 9 example_world) = Some None
   \<and> returned (ticker_fires ((=) 5)
        (world_of (RegisterEdgeDetection 5 RiseEdge 9 example_world))) = Some ()
   \<and> filter (callback_for 5)
        (drop (length (trace (world_of (RegisterEdgeDetection 5 RiseEdge 9 example_world))))
           (trace (world_of (ticker_fires ((=) 5)
              (world_of (RegisterEdgeDetection 5 RiseEdge 9 example_world))))))
       = [GoCallback 5 9 RiseEdge]"
proof -
  let ?w1 = "world_of (RegisterEdgeDetection 5 RiseEdge 9 example_world)"
  have held: "rpioPoller.registeredPins (poller example_world) 4
      = Some \<lparr>pin = 4, edge = FallEdge, callback = 7\<rparr>"
    by (simp add: example_world_def)
  have ok: "returned (RegisterEdgeDetection 5 RiseEdge 9 example_world) = Some None"
    by (simp add: method_defs example_world_def)
  have succeeded: "RegisterEdgeDetection 5 RiseEdge 9 example_world = Returns None ?w1"
    by (simp add: method_defs example_world_def)
  note poller_part = tick_invokes_once
    [where p = "poller example_world" and L = 4
      and r = "\<lparr>pin = 4, edge = FallEdge, callback = 7\<rparr>" and edgeDetected = "(=) 4",
      THEN conjunct1, THEN mp, OF conjI [OF held refl]]
  note world_part = tick_invokes_once
    [where L = 5 and edgeDetected = "(=) 5" and e = RiseEdge and cb = 9
      and w = example_world and ?w1.0 = ?w1,
      THEN conjunct2, THEN mp, OF conjI [OF succeeded refl]]
  have once: "filter (callback_for 4)
      (fst (snd (poll_select (FromTicker ((=) 4)) (poller example_world))))
      = [GoCallback 4 7 FallEdge]"
    using poller_part [THEN conjunct1] by simp
  show ?thesis
    by (intro conjI)
      (fact held refl once ok world_part [THEN conjunct1] world_part [THEN conjunct2])+
qed

text \<open>
  C8. A removal request for \<open>L\<close> leaves the poller's map without an entry for \<open>L\<close> and
  with every other entry as it was; it starts nothing, changes nothing else and lets the
  loop go on; where the map had no entry for \<open>L\<close> the poller is left exactly as it was.
  A new registration \<open>r\<close> is stored under its pin, whatever was stored there before,
  with every other entry as it was.
\<close>

theorem poll_registry_mutations:
  "rpioPoller.registeredPins (fst (poll_select (FromRemovePin L) p)) L = None
   \<and> (\<forall>k. k \<noteq> L \<longrightarrow>
          rpioPoller.registeredPins (fst (poll_select (FromRemovePin L) p)) k
            = rpioPoller.registeredPins p k)
   \<and> ticker (fst (poll_select (FromRemovePin L) p)) = ticker p
   \<and> snd (poll_select (FromRemovePin L) p) = ([], Again)
   \<and> (rpioPoller.registeredPins p L = None \<longrightarrow>
        poll_select (FromRemovePin L) p = (p, [], Again))
   \<and> rpioPoller.registeredPins (fst (poll_select (FromNewPin r) p)) (pin r) = Some r
   \<and> (\<forall>k. k \<noteq> pin r \<longrightarrow>
          rpioPoller.registeredPins (fst (poll_select (FromNewPin r) p)) k
            = rpioPoller.registeredPins p k)
   \<and> ticker (fst (poll_select (FromNewPin r) p)) = ticker p
   \<and> snd (poll_select (FromNewPin r) p) = ([], Again)"
  by (simp add: fun_upd_idem)

theorem poll_registry_mutations_witness:
  "rpioPoller.registeredPins (poller example_world) 5 = None
   \<and> poll_select (FromRemovePin 5) (poller example_world) = (poller example_world, [], Again)
   \<and> rpioPoller.registeredPins (fst (poll_select (FromRemovePin 4) (poller example_world))) 4
       = None
   \<and> (4 :: pin) \<noteq> 5
   \<and> rpioPoller.registeredPins (fst (poll_select (FromRemovePin 5) (poller example_world))) 4
       = Some \<lparr>pin = 4, edge = FallEdge, callback = 7\<rparr>
   \<and> rpioPoller.registeredPins
        (fst (poll_select (FromNewPin \<lparr>pin = 4, edge = RiseEdge, callback = 9\<rparr>)
               (poller example_world))) 4
       = Some \<lparr>pin = 4, edge = RiseEdge, callback = 9\<rparr>
   \<and> rpioPoller.registeredPins
        (fst (poll_select (FromNewPin \<lparr>pin = 5, edge = RiseEdge, callback = 9\<rparr>)
               (poller example_world))) 4
       = Some \<lparr>pin = 4, edge = FallEdge, callback = 7\<rparr>"
proof -
  let ?p = "poller example_world"
  have absent: "rpioPoller.registeredPins ?p 5 = None"
    and present: "rpioPoller.registeredPins ?p 4 = Some \<lparr>pin = 4, edge = FallEdge, callback = 7\<rparr>"
    by (simp_all add: example_world_def)
  have other: "(4 :: pin) \<noteq> 5"
    by simp
  note five = poll_registry_mutations [of 5 ?p "\<lparr>pin = 5, edge = RiseEdge, callback = 9\<rparr>"]
  note four = poll_registry_mutations [of 4 ?p "\<lparr>pin = 4, edge = RiseEdge, callback = 9\<rparr>"]
  from five absent have ignored: "poll_select (FromRemovePin 5) ?p = (?p, [], Again)"
    by blast
  from four have deleted:
    "rpioPoller.registeredPins (fst (poll_select (FromRemovePin 4) ?p)) 4 = None"
    by blast
  from five other present have kept:
    "rpioPoller.registeredPins (fst (poll_select (FromRemovePin 5) ?p)) 4
       = Some \<lparr>pin = 4, edge = FallEdge, callback = 7\<rparr>"
    by simp
  from four have replaced:
    "rpioPoller.registeredPins
       (fst (poll_select (FromNewPin \<lparr>pin = 4, edge = RiseEdge, callback = 9\<rparr>) ?p)) 4
       = Some \<lparr>pin = 4, edge = RiseEdge, callback = 9\<rparr>"
    by simp
  from five other present have beside:
    "rpioPoller.registeredPins
       (fst (poll_select (FromNewPin \<lparr>pin = 5, edge = RiseEdge, callback = 9\<rparr>) ?p)) 4
       = Some \<lparr>pin = 4, edge = FallEdge, callback = 7\<rparr>"
    by simp
  show ?thesis
    by (intro conjI) (fact absent ignored deleted other kept replaced beside)+
qed

text \<open>
  C7, as amended. After \<^verbatim>\<open>RemoveEdgeDetectionRegistration(L)\<close> has returned \<^verbatim>\<open>nil\<close>, the
  loop holds the removal, and its pass on it deletes the entry of \<open>L\<close>. From then on,
  whatever the loop receives, ticks with an edge on \<open>L\<close> among them, it starts no
  callback for \<open>L\<close>, as long as no new registration for \<open>L\<close> is among the things
  received. Nor does a tick that comes right after the call has returned: the loop
  receives it only after its pass on the removal.
\<close>

theorem removed_pin_silent:
  assumes "RemoveEdgeDetectionRegistration L w = Returns None w1"
    and "\<not> list_ex (registers L) cs"
  shows "inbox w1 = Some (FromRemovePin L)
    \<and> returned (poll_handle w1) = Some ()
    \<and> rpioPoller.registeredPins (poller (world_of (poll_handle w1))) L = None
    \<and> filter (callback_for L) (fst (snd (poll cs (poller (world_of (poll_handle w1)))))) = []
    \<and> filter (callback_for L) (fst (snd (poll (FromRemovePin L # cs) (poller w1)))) = []
    \<and> filter (callback_for L)
        (drop (length (trace w1)) (trace (world_of (ticker_fires edgeDetected w1)))) = []"
proof -
  from RemoveEdgeDetectionRegistration_Returns [OF assms(1)]
  have running: "0 < loops w1" and held: "inbox w1 = Some (FromRemovePin L)"
    by simp_all
  from running held have pass: "poll_handle w1 =
      Returns () (w1\<lparr>inbox := None, poller := fst (poll_select (FromRemovePin L) (poller w1))\<rparr>)"
    by (rule poll_handle_held) (simp_all add: doomed_def held)
  then have gone: "rpioPoller.registeredPins (poller (world_of (poll_handle w1))) L = None"
    by simp
  from gone assms(2)
  have later: "filter (callback_for L)
      (fst (snd (poll cs (poller (world_of (poll_handle w1)))))) = []"
    by (simp add: poll_unregistered)
  have "poll (FromRemovePin L # cs) (poller w1)
      = poll cs (poller (world_of (poll_handle w1)))"
    unfolding pass by (simp split: prod.splits)
  with later have whole:
    "filter (callback_for L) (fst (snd (poll (FromRemovePin L # cs) (poller w1)))) = []"
    by simp
  from running have tick: "filter (callback_for L)
      (drop (length (trace w1)) (trace (world_of (ticker_fires edgeDetected w1)))) = []"
    unfolding ticker_fires_def pass
    by (simp add: poll_iteration_def tick_for)
  from held pass gone later whole tick show ?thesis
    by simp
qed

theorem removed_pin_silent_witness:
  "returned (RemoveEdgeDetectionRegistration 4 example_world) = Some None
   \<and> \<not> list_ex (registers 4)
        [FromTicker ((=) 4), FromNewPin \<lparr>pin = 5, edge = AnyEdge, callback = 8 :: nat\<rparr>,
         FromNewPollFreq 5000000, FromTicker ((=) 4)]
   \<and> inbox (world_of (RemoveEdgeDetectionRegistration 4 example_world))
       = Some (FromRemovePin 4)
   \<and> filter (callback_for 4)
        (fst (snd (poll
           [FromTicker ((=) 4), FromNewPin \<lparr>pin = 5, edge = AnyEdge, callback = 8\<rparr>,
            FromNewPollFreq 5000000, FromTicker ((=) 4)]
           (poller (world_of (poll_handle
              (world_of (RemoveEdgeDetectionRegistration 4 example_world))))))))
       = []
   \<and> filter (callback_for 4)
        (drop (length (trace (world_of (RemoveEdgeDetectionRegistration 4 example_world))))
           (trace (world_of (ticker_fires ((=) 4)
              (world_of (RemoveEdgeDetectionRegistration 4 example_world))))))
       = []
   \<and> filter (callback_for 4)
        (drop (length (trace example_world))
           (trace (world_of (ticker_fires ((=) 4) example_world))))
       = [GoCallback 4 7 FallEdge]"
proof -
  let ?cs = "[FromTicker ((=) 4), FromNewPin \<lparr>pin = 5, edge = AnyEdge, callback = 8\<rparr>,
              FromNewPollFreq 5000000, FromTicker ((=) 4)] :: nat select_case list"
  let ?w1 = "world_of (RemoveEdgeDetectionRegistration 4 example_world)"
  have ok: "returned (RemoveEdgeDetectionRegistration 4 example_world) = Some None"
    by (simp add: method_defs example_world_def)
  have removed: "RemoveEdgeDetectionRegistration 4 example_world = Returns None ?w1"
    by (simp add: method_defs example_world_def)
  have others: "\<not> list_ex (registers 4) ?cs"
    by simp
  have before: "filter (callback_for 4)
        (drop (length (trace example_world))
           (trace (world_of (ticker_fires ((=) 4) example_world))))
       = [GoCallback 4 7 FallEdge]"
    by (simp add: ticker_fires_def poll_handle_def poll_iteration_def tick_for
        example_world_def)
  note silent = removed_pin_silent [OF removed others, of "(=) 4"]
  show ?thesis
    by (intro conjI)
      (fact ok others silent [THEN conjunct1]
        silent [THEN conjunct2, THEN conjunct2, THEN conjunct2, THEN conjunct1]
        silent [THEN conjunct2, THEN conjunct2, THEN conjunct2, THEN conjunct2, THEN conjunct2]
        before)+
qed

text \<open>
  C7, as the claim states it, fails: after the removal of pin 4 has returned and the loop
  has made its pass on it, the poller receives a new registration of pin 4 and then a
  tick with an edge on pin 4, and the tick starts the new callback for pin 4. The same on
  the whole program: the removal, the loop's pass, then
  \<^verbatim>\<open>RegisterEdgeDetection(4, RiseEdge, 9)\<close>, then the tick.
\<close>

theorem removed_pin_counterexample:
  "returned (RemoveEdgeDetectionRegistration 4 example_world) = Some None
   \<and> returned (poll_handle (world_of (RemoveEdgeDetectionRegistration 4 example_world)))
       = Some ()
   \<and> rpioPoller.registeredPins
        (poller (world_of (poll_handle
           (world_of (RemoveEdgeDetectionRegistration 4 example_world))))) 4 = None
   \<and> filter (callback_for 4)
        (fst (snd (poll
           [FromNewPin \<lparr>pin = 4, edge = RiseEdge, callback = 9\<rparr>, FromTicker ((=) 4)]
           (poller (world_of (poll_handle
              (world_of (RemoveEdgeDetectionRegistration 4 example_world))))))))
       = [GoCallback 4 9 RiseEdge]
   \<and> returned
        (run [LoopRuns, CallRegisterEdgeDetection 4 RiseEdge 9, TickerFires ((=) 4)]
           (world_of (RemoveEdgeDetectionRegistration 4 example_world))) = Some ()
   \<and> filter (callback_for 4)
        (drop (length (trace (world_of (RemoveEdgeDetectionRegistration 4 example_world))))
           (trace (world_of
              (run [LoopRuns, CallRegisterEdgeDetection 4 RiseEdge 9, TickerFires ((=) 4)]
                 (world_of (RemoveEdgeDetectionRegistration 4 example_world))))))
       = [GoCallback 4 9 RiseEdge]"
  by (simp add: method_defs example_world_def tick_for)

subsection \<open>The two maps\<close>

text \<open>Consistency where the loop holds nothing, and after the loop's pass.\<close>

lemma consistent_at_select: "consistent w \<Longrightarrow> inbox w = None \<Longrightarrow> shadows_registry w"
  by (simp add: consistent_def registry_def pending_pass_def shadows_registry_def)

lemma consistent_after_pass:
  assumes "consistent w"
  shows "shadows_registry (world_of (poll_handle w))"
proof -
  from assms have st: "steady w" by (simp add: consistent_def)
  have "inbox (world_of (poll_handle w)) = None"
  proof (cases "loops w = 0")
    case True
    with st have "inbox w = None"
      by (cases "inbox w") (simp_all add: steady_def one_loop_def split: if_splits)
    with True show ?thesis by (simp add: poll_handle_fields)
  next
    case False
    then show ?thesis by (simp add: poll_handle_fields)
  qed
  with consistent_poll_handle [OF assms] show ?thesis
    by (rule consistent_at_select)
qed

text \<open>
  C5. In every state a run from \<^verbatim>\<open>init\<close> reaches while the process lives, the
  controller's \<open>registeredPins\<close> has the keys of the poller's \<open>registeredPins\<close> with the
  message counted in that was sent and that the loop has not applied yet, and every
  registration is stored under its own pin; where the loop holds no message the two maps
  have the same keys, and the loop's next pass makes them have the same keys. A
  registration that returns \<^verbatim>\<open>nil\<close> has written the controller's map and handed the
  message over, and the poller's map is still without the key \<open>L\<close>: the controller's map
  is ahead by exactly \<open>L\<close>; the loop's next pass stores the registration under \<open>L\<close>, and
  the two maps have the same keys. Likewise for a removal that returns \<^verbatim>\<open>nil\<close>: the
  key \<open>L\<close> is gone from the controller's map, the loop holds the removal, the poller's map
  still has the entry of \<open>L\<close>, and the loop's next pass deletes it.
\<close>

theorem registries_agree:
  "(alive (run acts RPIOClient) \<longrightarrow>
      consistent (world_of (run acts RPIOClient))
      \<and> dom (rPIO.registeredPins (world_of (run acts RPIOClient)))
          = dom (registry (world_of (run acts RPIOClient)))
      \<and> keyed_by_pin (registry (world_of (run acts RPIOClient)))
      \<and> keyed_by_pin (rpioPoller.registeredPins (poller (world_of (run acts RPIOClient))))
      \<and> (inbox (world_of (run acts RPIOClient)) = None \<longrightarrow>
            shadows_registry (world_of (run acts RPIOClient)))
      \<and> shadows_registry (world_of (poll_handle (world_of (run acts RPIOClient)))))
   \<and> (dom (rPIO.registeredPins w) = dom (registry w)
        \<and> RegisterEdgeDetection L e cb w = Returns None w1 \<longrightarrow>
        rPIO.registeredPins w1 = (rPIO.registeredPins w)(L \<mapsto> True)
        \<and> inbox w1 = Some (FromNewPin \<lparr>pin = L, edge = e, callback = cb\<rparr>)
        \<and> rpioPoller.registeredPins (poller w1) = registry w
        \<and> L \<notin> dom (rpioPoller.registeredPins (poller w1))
        \<and> dom (rPIO.registeredPins w1) = insert L (dom (rpioPoller.registeredPins (poller w1)))
        \<and> dom (rPIO.registeredPins w1) = dom (registry w1)
        \<and> poll_handle w1 =
            Returns ()
              (w1\<lparr>inbox := None,
                  poller := (poller w1)\<lparr>rpioPoller.registeredPins :=
                    (rpioPoller.registeredPins (poller w1))
                      (L \<mapsto> \<lparr>pin = L, edge = e, callback = cb\<rparr>)\<rparr>\<rparr>)
        \<and> shadows_registry (world_of (poll_handle w1)))
   \<and> (dom (rPIO.registeredPins w) = dom (registry w)
        \<and> RemoveEdgeDetectionRegistration L w = Returns None w1 \<longrightarrow>
        rPIO.registeredPins w1 = (rPIO.registeredPins w)(L := None)
        \<and> inbox w1 = Some (FromRemovePin L)
        \<and> rpioPoller.registeredPins (poller w1) = registry w
        \<and> L \<in> dom (rpioPoller.registeredPins (poller w1))
        \<and> dom (rPIO.registeredPins w1) = dom (rpioPoller.registeredPins (poller w1)) - {L}
        \<and> dom (rPIO.registeredPins w1) = dom (registry w1)
        \<and> poll_handle w1 =
            Returns ()
              (w1\<lparr>inbox := None,
                  poller := (poller w1)\<lparr>rpioPoller.registeredPins :=
                    (rpioPoller.registeredPins (poller w1))(L := None)\<rparr>\<rparr>)
        \<and> shadows_registry (world_of (poll_handle w1)))"
proof -
  let ?W = "world_of (run acts (RPIOClient :: 'a world))"
  have inv: "consistent ?W
      \<and> dom (rPIO.registeredPins ?W) = dom (registry ?W)
      \<and> keyed_by_pin (registry ?W)
      \<and> keyed_by_pin (rpioPoller.registeredPins (poller ?W))
      \<and> (inbox ?W = None \<longrightarrow> shadows_registry ?W)
      \<and> shadows_registry (world_of (poll_handle ?W))"
    if "alive (run acts (RPIOClient :: 'a world))"
  proof -
    from that have c: "consistent ?W" by (rule run_alive_consistent)
    then have "dom (rPIO.registeredPins ?W) = dom (registry ?W)"
      "keyed_by_pin (registry ?W)" "keyed_by_pin (rpioPoller.registeredPins (poller ?W))"
      by (simp_all add: consistent_def)
    moreover from c have "inbox ?W = None \<longrightarrow> shadows_registry ?W"
      by (simp add: consistent_at_select)
    moreover from c have "shadows_registry (world_of (poll_handle ?W))"
      by (rule consistent_after_pass)
    ultimately show ?thesis using c by (intro conjI)
  qed
  let ?r = "\<lparr>pin = L, edge = e, callback = cb\<rparr>"
  have add: "rPIO.registeredPins w1 = (rPIO.registeredPins w)(L \<mapsto> True)
        \<and> inbox w1 = Some (FromNewPin ?r)
        \<and> rpioPoller.registeredPins (poller w1) = registry w
        \<and> L \<notin> dom (rpioPoller.registeredPins (poller w1))
        \<and> dom (rPIO.registeredPins w1) = insert L (dom (rpioPoller.registeredPins (poller w1)))
        \<and> dom (rPIO.registeredPins w1) = dom (registry w1)
        \<and> poll_handle w1 =
            Returns ()
              (w1\<lparr>inbox := None,
                  poller := (poller w1)\<lparr>rpioPoller.registeredPins :=
                    (rpioPoller.registeredPins (poller w1))(L \<mapsto> ?r)\<rparr>\<rparr>)
        \<and> shadows_registry (world_of (poll_handle w1))"
    if agree: "dom (rPIO.registeredPins w) = dom (registry w)"
      and call: "RegisterEdgeDetection L e cb w = Returns None w1"
  proof -
    note facts = RegisterEdgeDetection_Returns [OF call]
    from facts have free: "rPIO.registeredPins w L = None"
      and running: "0 < loops w1"
      and held: "inbox w1 = Some (FromNewPin ?r)"
      and shadow: "rPIO.registeredPins w1 = (rPIO.registeredPins w)(L \<mapsto> True)"
      and raw: "rpioPoller.registeredPins (poller w1) = registry w"
      by (simp_all add: registry_def)
    from free agree have out: "L \<notin> dom (registry w)"
      by (metis domIff)
    from shadow agree have ahead: "dom (rPIO.registeredPins w1) = insert L (dom (registry w))"
      by simp
    from held have pending: "registry w1 = (registry w)(L \<mapsto> ?r)"
      by (simp add: registry_def pending_pass_def raw [unfolded registry_def])
    from running held have pass: "poll_handle w1 =
        Returns ()
          (w1\<lparr>inbox := None, poller := fst (poll_select (FromNewPin ?r) (poller w1))\<rparr>)"
      by (rule poll_handle_held) (simp_all add: doomed_def held)
    then have pass': "poll_handle w1 =
            Returns ()
              (w1\<lparr>inbox := None,
                  poller := (poller w1)\<lparr>rpioPoller.registeredPins :=
                    (rpioPoller.registeredPins (poller w1))(L \<mapsto> ?r)\<rparr>\<rparr>)"
      by simp
    have after: "shadows_registry (world_of (poll_handle w1))"
      unfolding pass' using ahead by (simp add: shadows_registry_def raw)
    from ahead pending have counted: "dom (rPIO.registeredPins w1) = dom (registry w1)"
      by simp
    from shadow held raw out ahead counted pass' after show ?thesis
      by (simp only: raw simp_thms)
  qed
  have del: "rPIO.registeredPins w1 = (rPIO.registeredPins w)(L := None)
        \<and> inbox w1 = Some (FromRemovePin L)
        \<and> rpioPoller.registeredPins (poller w1) = registry w
        \<and> L \<in> dom (rpioPoller.registeredPins (poller w1))
        \<and> dom (rPIO.registeredPins w1) = dom (rpioPoller.registeredPins (poller w1)) - {L}
        \<and> dom (rPIO.registeredPins w1) = dom (registry w1)
        \<and> poll_handle w1 =
            Returns ()
              (w1\<lparr>inbox := None,
                  poller := (poller w1)\<lparr>rpioPoller.registeredPins :=
                    (rpioPoller.registeredPins (poller w1))(L := None)\<rparr>\<rparr>)
        \<and> shadows_registry (world_of (poll_handle w1))"
    if agree: "dom (rPIO.registeredPins w) = dom (registry w)"
      and call: "RemoveEdgeDetectionRegistration L w = Returns None w1"
  proof -
    note facts = RemoveEdgeDetectionRegistration_Returns [OF call]
    from facts have taken: "rPIO.registeredPins w L \<noteq> None"
      and running: "0 < loops w1"
      and held: "inbox w1 = Some (FromRemovePin L)"
      and shadow: "rPIO.registeredPins w1 = (rPIO.registeredPins w)(L := None)"
      and raw: "rpioPoller.registeredPins (poller w1) = registry w"
      by (simp_all add: registry_def)
    from taken agree have inside: "L \<in> dom (registry w)"
      by (metis domIff)
    from shadow agree have behind: "dom (rPIO.registeredPins w1) = dom (registry w) - {L}"
      by simp
    from held have pending: "registry w1 = (registry w)(L := None)"
      by (simp add: registry_def pending_pass_def raw [unfolded registry_def])
    from running held have pass: "poll_handle w1 =
        Returns ()
          (w1\<lparr>inbox := None, poller := fst (poll_select (FromRemovePin L) (poller w1))\<rparr>)"
      by (rule poll_handle_held) (simp_all add: doomed_def held)
    then have pass': "poll_handle w1 =
            Returns ()
              (w1\<lparr>inbox := None,
                  poller := (poller w1)\<lparr>rpioPoller.registeredPins :=
                    (rpioPoller.registeredPins (poller w1))(L := None)\<rparr>\<rparr>)"
      by simp
    have after: "shadows_registry (world_of (poll_handle w1))"
      unfolding pass' using behind by (simp add: shadows_registry_def raw)
    from behind pending have counted: "dom (rPIO.registeredPins w1) = dom (registry w1)"
      by simp
    from shadow held raw inside behind counted pass' after show ?thesis
      by (simp only: raw simp_thms)
  qed
  from inv add del show ?thesis by blast
qed

theorem registries_agree_witness:
  "alive (run [CallStart None, CallPoll, CallRegisterEdgeDetection 4 FallEdge 7]
       (RPIOClient :: nat world))
   \<and> rPIO.registeredPins
        (world_of (run [CallStart None, CallPoll, CallRegisterEdgeDetection 4 FallEdge 7]
           (RPIOClient :: nat world))) = [4 \<mapsto> True]
   \<and> rpioPoller.registeredPins
        (poller (world_of (run [CallStart None, CallPoll, CallRegisterEdgeDetection 4 FallEdge 7]
           (RPIOClient :: nat world)))) = Map.empty
   \<and> inbox (world_of (run [CallStart None, CallPoll, CallRegisterEdgeDetection 4 FallEdge 7]
           (RPIOClient :: nat world)))
       = Some (FromNewPin \<lparr>pin = 4, edge = FallEdge, callback = 7\<rparr>)
   \<and> dom (rPIO.registeredPins
        (world_of (run [CallStart None, CallPoll, CallRegisterEdgeDetection 4 FallEdge 7]
           (RPIOClient :: nat world))))
       = dom (registry
        (world_of (run [CallStart None, CallPoll, CallRegisterEdgeDetection 4 FallEdge 7]
           (RPIOClient :: nat world))))
   \<and> shadows_registry (world_of (poll_handle
        (world_of (run [CallStart None, CallPoll, CallRegisterEdgeDetection 4 FallEdge 7]
           (RPIOClient :: nat world)))))
   \<and> inbox example_world = None
   \<and> shadows_registry example_world
   \<and> returned (RegisterEdgeDetection 5 RiseEdge 9 example_world) = Some None
   \<and> dom (rPIO.registeredPins (world_of (RegisterEdgeDetection 5 RiseEdge 9 example_world)))
       = {4, 5}
   \<and> dom (rpioPoller.registeredPins
        (poller (world_of (RegisterEdgeDetection 5 RiseEdge 9 example_world)))) = {4}
   \<and> shadows_registry (world_of (poll_handle
        (world_of (RegisterEdgeDetection 5 RiseEdge 9 example_world))))
   \<and> returned (RemoveEdgeDetectionRegistration 4 example_world) = Some None
   \<and> dom (rPIO.registeredPins (world_of (RemoveEdgeDetectionRegistration 4 example_world)))
       = {}
   \<and> dom (rpioPoller.registeredPins
        (poller (world_of (RemoveEdgeDetectionRegistration 4 example_world)))) = {4}
   \<and> shadows_registry (world_of (poll_handle
        (world_of (RemoveEdgeDetectionRegistration 4 example_world))))"
proof -
  let ?held = "[CallStart None, CallPoll, CallRegisterEdgeDetection 4 FallEdge 7]
    :: nat action list"
  let ?done = "[CallStart None, CallPoll, CallRegisterEdgeDetection 4 FallEdge 7, LoopRuns]
    :: nat action list"
  let ?W = "world_of (run ?held (RPIOClient :: nat world))"
  let ?a = "world_of (RegisterEdgeDetection 5 RiseEdge 9 example_world)"
  let ?d = "world_of (RemoveEdgeDetectionRegistration 4 example_world)"
  have lives: "alive (run ?held (RPIOClient :: nat world))"
    by (simp add: method_defs RPIOClient_def)
  have shadow: "rPIO.registeredPins ?W = [4 \<mapsto> True]"
    by (simp add: method_defs RPIOClient_def)
  have raw: "rpioPoller.registeredPins (poller ?W) = Map.empty"
    by (simp add: method_defs RPIOClient_def)
  have holds: "inbox ?W = Some (FromNewPin \<lparr>pin = 4, edge = FallEdge, callback = 7\<rparr>)"
    by (simp add: method_defs RPIOClient_def)
  note pending = registries_agree [where acts = ?held, THEN conjunct1, THEN mp, OF lives]
  have reached: "world_of (run ?done RPIOClient) = example_world"
    by (simp only: example_world_run world_of.simps)
  have lives': "alive (run ?done (RPIOClient :: nat world))"
    by (simp only: example_world_run alive.simps)
  note settled = registries_agree [where acts = ?done, THEN conjunct1, THEN mp, OF lives',
      unfolded reached]
  have empty: "inbox example_world = None"
    by (simp add: example_world_def)
  note agree = settled [THEN conjunct2, THEN conjunct2, THEN conjunct2, THEN conjunct2,
      THEN conjunct1, THEN mp, OF empty]
  note counted = settled [THEN conjunct2, THEN conjunct1]
  have ok_a: "returned (RegisterEdgeDetection 5 RiseEdge 9 example_world) = Some None"
    by (simp add: method_defs example_world_def)
  have call_a: "RegisterEdgeDetection 5 RiseEdge 9 example_world = Returns None ?a"
    by (simp add: method_defs example_world_def)
  note added = registries_agree [where w = example_world and L = 5 and e = RiseEdge
      and cb = 9 and ?w1.0 = ?a, THEN conjunct2, THEN conjunct1, THEN mp,
      OF conjI [OF counted call_a]]
  have ok_d: "returned (RemoveEdgeDetectionRegistration 4 example_world) = Some None"
    by (simp add: method_defs example_world_def)
  have call_d: "RemoveEdgeDetectionRegistration 4 example_world = Returns None ?d"
    by (simp add: method_defs example_world_def)
  note removed = registries_agree [where w = example_world and L = 4 and ?w1.0 = ?d,
      THEN conjunct2, THEN conjunct2, THEN mp, OF conjI [OF counted call_d]]
  have registry: "registry example_world = [4 \<mapsto> \<lparr>pin = 4, edge = FallEdge, callback = 7\<rparr>]"
    by (simp add: registry_def pending_pass_def example_world_def)
  have keys_a: "dom (rPIO.registeredPins ?a) = {4, 5}"
    unfolding added [THEN conjunct1] by (auto simp: example_world_def)
  have raw_a: "dom (rpioPoller.registeredPins (poller ?a)) = {4}"
    unfolding added [THEN conjunct2, THEN conjunct2, THEN conjunct1] registry by simp
  have keys_d: "dom (rPIO.registeredPins ?d) = {}"
    unfolding removed [THEN conjunct1] by (simp add: example_world_def)
  have raw_d: "dom (rpioPoller.registeredPins (poller ?d)) = {4}"
    unfolding removed [THEN conjunct2, THEN conjunct2, THEN conjunct1] registry by simp
  show ?thesis
    by (intro conjI)
      (fact lives shadow raw holds pending [THEN conjunct2, THEN conjunct1]
        pending [THEN conjunct2, THEN conjunct2, THEN conjunct2, THEN conjunct2, THEN conjunct2]
        empty agree ok_a keys_a raw_a
        added [THEN conjunct2, THEN conjunct2, THEN conjunct2, THEN conjunct2, THEN conjunct2,
          THEN conjunct2, THEN conjunct2]
        ok_d keys_d raw_d
        removed [THEN conjunct2, THEN conjunct2, THEN conjunct2, THEN conjunct2, THEN conjunct2,
          THEN conjunct2, THEN conjunct2])+
qed

end
